theory Spec2Isabelle
  imports Complex_Main "HOL-Library.AList" "HOL-Library.Product_Lexorder"
begin


section \<open>Strings of the course-selection checker\<close>

text \<open>
  The checker (\<^verbatim>\<open>deshboard/src/App.tsx\<close>) is TypeScript: a string is a sequence of UTF-16
  code units, and every regular expression of the file runs without the \<^verbatim>\<open>u\<close> flag, so it
  works on code units as well. A string is modelled as the list of its code units;
  \<open>asc\<close> writes an ASCII literal, other literals are given by their code units, with the
  source text named in the comment beside them. \<^verbatim>\<open>null\<close> is \<open>None\<close>.
\<close>

type_synonym ustring = "nat list"

abbreviation asc :: "string \<Rightarrow> ustring" where
  "asc s \<equiv> map of_char s"

text \<open>
  ECMAScript's \<^verbatim>\<open>WhiteSpace\<close> and \<^verbatim>\<open>LineTerminator\<close> code points: what \<^verbatim>\<open>\s\<close> matches in a
  regular expression literal and what \<^verbatim>\<open>String.prototype.trim\<close> removes at both ends.
\<close>

definition isSpace :: "nat \<Rightarrow> bool" where
  "isSpace c \<longleftrightarrow>
     c \<in> {0x09, 0x0A, 0x0B, 0x0C, 0x0D, 0x20, 0xA0, 0x1680, 0x2028, 0x2029, 0x202F, 0x205F,
          0x3000, 0xFEFF}
     \<or> (0x2000 \<le> c \<and> c \<le> 0x200A)"

text \<open>The code units the dot of a regular expression does not match (no \<^verbatim>\<open>s\<close> flag).\<close>

definition isLineTerminator :: "nat \<Rightarrow> bool" where
  "isLineTerminator c \<longleftrightarrow> c \<in> {0x0A, 0x0D, 0x2028, 0x2029}"

definition trim :: "ustring \<Rightarrow> ustring" where
  "trim s = rev (dropWhile isSpace (rev (dropWhile isSpace s)))"

text \<open>\<^verbatim>\<open>.replace(/\s+/g, '')\<close>: every white-space code unit is removed.\<close>

definition removeSpaces :: "ustring \<Rightarrow> ustring" where
  "removeSpaces s = filter (\<lambda>c. \<not> isSpace c) s"

subsection \<open>Unicode compatibility normalization\<close>

text \<open>
  \<^verbatim>\<open>String.prototype.normalize('NFKC')\<close> belongs to the JavaScript runtime, not to the
  repository. Every function below that calls it takes the normalization as its first
  argument \<open>nfkc\<close>, so the general theorems hold for whatever the runtime computes.
\<close>

text \<open>
  Modelled from the spec: the runtime's NFKC, missing from the sources, on the code
  points that the concrete inputs of this development use ("Unicode compatibility
  normalization (NFKC) so that full-width/half-width and compatibility variants collapse
  to one form"). \<open>nfkcChar\<close> gives the Unicode Character Database's NFKC form of one
  code point:
  \<^item> the spaces U+00A0, U+2000 .. U+200A, U+202F, U+205F and U+3000 become U+0020;
  \<^item> U+00B4 acute accent becomes U+0020 U+0301 (space, combining acute accent);
  \<^item> U+0387 Greek ano teleia becomes U+00B7 middle dot;
  \<^item> the Roman numerals U+2160 .. U+2169 become the ASCII letters I, II, .. X;
  \<^item> U+318D Hangul letter araea becomes U+119E Hangul jungseong araea;
  \<^item> the full-width forms U+FF01 .. U+FF5E become ASCII U+0021 .. U+007E;
  \<^item> U+FF65 half-width katakana middle dot becomes U+30FB;
  \<^item> every other code unit is kept.
  \<open>nfkcTable\<close> agrees with the runtime on the strings it is applied to here: strings
  of these code points, ASCII and precomposed Hangul syllables (U+AC00 .. U+D7A3), and
  the combining accent U+0301 alone or behind a space. In such a string no code point
  composes with a neighbour, so NFKC works on each code point by itself.
\<close>

definition nfkcChar :: "nat \<Rightarrow> ustring" where
  "nfkcChar c =
     (if c = 0xA0 \<or> c = 0x3000 \<or> (0x2000 \<le> c \<and> c \<le> 0x200A) \<or> c = 0x202F \<or> c = 0x205F
      then [0x20]
      else if c = 0xB4 then [0x20, 0x301]
      else if c = 0x387 then [0xB7]
      else if c = 0x2160 then asc ''I''
      else if c = 0x2161 then asc ''II''
      else if c = 0x2162 then asc ''III''
      else if c = 0x2163 then asc ''IV''
      else if c = 0x2164 then asc ''V''
      else if c = 0x2165 then asc ''VI''
      else if c = 0x2166 then asc ''VII''
      else if c = 0x2167 then asc ''VIII''
      else if c = 0x2168 then asc ''IX''
      else if c = 0x2169 then asc ''X''
      else if c = 0x318D then [0x119E]
      else if 0xFF01 \<le> c \<and> c \<le> 0xFF5E then [c - 0xFEE0]
      else if c = 0xFF65 then [0x30FB]
      else [c])"

definition nfkcTable :: "ustring \<Rightarrow> ustring" where
  "nfkcTable s = concat (map nfkcChar s)"

section \<open>Group canonicalization: \<^verbatim>\<open>canonGroup\<close>\<close>

text \<open>
  \<^verbatim>\<open>.replace(/[dots]/g, KDOT)\<close> with the class U+00B7, U+22C5, U+2022, U+2219, U+30FB,
  U+318D and the replacement U+30FB (katakana middle dot), and
  \<^verbatim>\<open>.replace(/FULLWIDTH SOLIDUS/g, '/')\<close>.
\<close>

definition KDOT :: nat where
  "KDOT = 0x30FB"

definition SLASH :: nat where
  "SLASH = 0x2F"

definition dotChars :: "nat list" where
  "dotChars = [0xB7, 0x22C5, 0x2022, 0x2219, 0x30FB, 0x318D]"

definition unifyDots :: "ustring \<Rightarrow> ustring" where
  "unifyDots s = map (\<lambda>c. if c \<in> set dotChars then KDOT else c) s"

definition unifySlash :: "ustring \<Rightarrow> ustring" where
  "unifySlash s = map (\<lambda>c. if c = 0xFF0F then SLASH else c) s"

text \<open>
  \<^verbatim>\<open>.replace(/\s*d\s*/g, d)\<close> for a separator \<open>d\<close> that is not white space. The global
  replace scans from the left. At a position the pattern matches exactly when the
  maximal run of white space there is followed by \<open>d\<close> (a shorter run is followed by
  white space, never by \<open>d\<close>); the match takes that run, \<open>d\<close> and the maximal run after
  it, and the scan goes on behind the match. Where the pattern does not match, the code
  unit is copied and the scan moves one position on.
\<close>

function stripAround :: "nat \<Rightarrow> ustring \<Rightarrow> ustring" where
  "stripAround d [] = []"
| "stripAround d (c # cs) =
     (case dropWhile isSpace (c # cs) of
        [] \<Rightarrow> c # stripAround d cs
      | x # xs \<Rightarrow>
          if x = d then d # stripAround d (dropWhile isSpace xs)
          else c # stripAround d cs)"
  by pat_completeness auto
termination
proof (relation "measure (\<lambda>(d, s). length s)")
  show "wf (measure (\<lambda>(d, s). length s))" by simp
next
  fix d :: nat and c :: nat and cs :: ustring
  show "((d, cs), (d, c # cs)) \<in> measure (\<lambda>(d, s). length s)" by simp
next
  fix d :: nat and c :: nat and cs :: ustring and x :: nat and xs :: ustring
  assume eq: "dropWhile isSpace (c # cs) = x # xs"
  have "length (dropWhile isSpace xs) \<le> length xs"
    by (rule length_dropWhile_le)
  moreover have "length (x # xs) \<le> length (c # cs)"
    using length_dropWhile_le [of isSpace "c # cs"] eq by simp
  ultimately show "((d, dropWhile isSpace xs), (d, c # cs)) \<in> measure (\<lambda>(d, s). length s)"
    by simp
next
  fix d :: nat and c :: nat and cs :: ustring and x :: nat and xs :: ustring
  show "((d, cs), (d, c # cs)) \<in> measure (\<lambda>(d, s). length s)" by simp
qed

text \<open>
  \<^verbatim>\<open>.replace(/\(([^)]*)\)/g, (_m, inner) => `(${String(inner).replace(/\s+/g, '')})`)\<close>:
  at an opening parenthesis the pattern matches up to the next closing parenthesis, if
  there is one, and the span between them loses its white space; the scan goes on behind
  the closing parenthesis. Without a closing parenthesis the code unit is copied.
\<close>

definition LPAREN :: nat where
  "LPAREN = 0x28"

definition RPAREN :: nat where
  "RPAREN = 0x29"

function parenStrip :: "ustring \<Rightarrow> ustring" where
  "parenStrip [] = []"
| "parenStrip (c # cs) =
     (if c = LPAREN then
        (case dropWhile (\<lambda>x. x \<noteq> RPAREN) cs of
           [] \<Rightarrow> c # parenStrip cs
         | r # rest \<Rightarrow>
             LPAREN # removeSpaces (takeWhile (\<lambda>x. x \<noteq> RPAREN) cs) @ RPAREN # parenStrip rest)
      else c # parenStrip cs)"
  by pat_completeness auto
termination
proof (relation "measure length")
  show "wf (measure length)" by simp
next
  fix c :: nat and cs :: ustring
  show "(cs, c # cs) \<in> measure length" by simp
next
  fix c :: nat and cs :: ustring and r :: nat and rest :: ustring
  assume "dropWhile (\<lambda>x. x \<noteq> RPAREN) cs = r # rest"
  then have "length (r # rest) \<le> length cs"
    using length_dropWhile_le [of "\<lambda>x. x \<noteq> RPAREN" cs] by simp
  then show "(rest, c # cs) \<in> measure length" by simp
next
  fix c :: nat and cs :: ustring
  show "(cs, c # cs) \<in> measure length" by simp
qed

text \<open>
  The chain of lines 41 to 51 of \<^verbatim>\<open>canonGroup\<close>, applied there to the trimmed label:
  NFKC, one middle dot, one slash, no white space around the two separators, no white
  space inside parentheses.
\<close>

definition rewriteGroup :: "ustring \<Rightarrow> ustring" where
  "rewriteGroup s = parenStrip (stripAround SLASH (stripAround KDOT (unifySlash (unifyDots s))))"

definition normalizeGroup :: "(ustring \<Rightarrow> ustring) \<Rightarrow> ustring \<Rightarrow> ustring" where
  "normalizeGroup nfkc s = rewriteGroup (nfkc s)"

text \<open>
  The labels of \<^verbatim>\<open>canonGroup\<close>. \<open>OTHER\<close> is the literal of lines 37 and 39 (U+AE30
  U+D0C0, Korean for "other"); \<open>target\<close> is the merged label of line 53; the literals of
  lines 58 to 63 follow.
\<close>

definition OTHER :: ustring where
  "OTHER = [0xAE30, 0xD0C0]"

definition target :: ustring where
  "target = [0xAE30, 0xC220, 0x30FB, 0xAC00, 0xC815, 0x2F, 0xC81C, 0x32, 0xC678, 0xAD6D, 0xC5B4,
             0x2F, 0xD55C, 0xBB38, 0x2F, 0xAD50, 0xC591]"

definition LIBERAL_ARTS :: ustring where
  "LIBERAL_ARTS = [0xAD50, 0xC591]"

definition SECOND_LANGUAGE :: ustring where
  "SECOND_LANGUAGE = [0xC81C, 0x32, 0xC678, 0xAD6D, 0xC5B4]"

definition SECOND_LANGUAGE_CHINESE :: ustring where
  "SECOND_LANGUAGE_CHINESE = [0xC81C, 0x32, 0xC678, 0xAD6D, 0xC5B4, 0x2F, 0xD55C, 0xBB38]"

definition CLASSICAL_CHINESE :: ustring where
  "CLASSICAL_CHINESE = [0xD55C, 0xBB38]"

definition TECH_HOME :: ustring where
  "TECH_HOME = [0xAE30, 0xC220, 0x30FB, 0xAC00, 0xC815]"

definition TECH_HOME_INFO :: ustring where
  "TECH_HOME_INFO = [0xAE30, 0xC220, 0x30FB, 0xAC00, 0xC815, 0x2F, 0xC815, 0xBCF4]"

definition canonGroup :: "(ustring \<Rightarrow> ustring) \<Rightarrow> ustring option \<Rightarrow> ustring" where
  "canonGroup nfkc raw =
     (case raw of
        None \<Rightarrow> OTHER
      | Some r \<Rightarrow>
          (let s = trim r in
           if s = [] then OTHER
           else
             (let normalized = normalizeGroup nfkc s;
                  cmp = removeSpaces normalized
              in if cmp = target \<or> cmp = LIBERAL_ARTS \<or> cmp = SECOND_LANGUAGE
                    \<or> cmp = SECOND_LANGUAGE_CHINESE \<or> cmp = CLASSICAL_CHINESE
                    \<or> cmp = TECH_HOME \<or> cmp = TECH_HOME_INFO
                 then target
                 else normalized)))"

text \<open>
  The \<^verbatim>\<open>canonGroup\<close> of the other UI variant (\<^verbatim>\<open>unnamed/part_000\<close>, lines 35 to 66): the
  same text, with five comparisons after the one with \<open>target\<close>.
\<close>

definition canonGroup_part_000 :: "(ustring \<Rightarrow> ustring) \<Rightarrow> ustring option \<Rightarrow> ustring" where
  "canonGroup_part_000 nfkc raw =
     (case raw of
        None \<Rightarrow> OTHER
      | Some r \<Rightarrow>
          (let s = trim r in
           if s = [] then OTHER
           else
             (let normalized = normalizeGroup nfkc s;
                  cmp = removeSpaces normalized
              in if cmp = target \<or> cmp = LIBERAL_ARTS \<or> cmp = SECOND_LANGUAGE
                    \<or> cmp = CLASSICAL_CHINESE
                    \<or> cmp = TECH_HOME \<or> cmp = TECH_HOME_INFO
                 then target
                 else normalized)))"

section \<open>Hierarchy levels: \<^verbatim>\<open>parseHierLevel\<close>\<close>

text \<open>
  The pattern is built from a template literal (line 77), in which \<^verbatim>\<open>\s\<close> is the letter
  \<^verbatim>\<open>s\<close>: the regular expression is \<^verbatim>\<open>^(.*?)s*(?:[U+2160-U+2169]|(?:VIII|VII|VI|IV|IX|III|II|I|X))$\<close>.
  \<open>unicodeRoman\<close> is the class of line 76 and \<open>asciiRoman\<close> the alternation of line 75, in
  its order; the letter V alone is not among the alternatives.
\<close>

definition unicodeRoman :: "nat list" where
  "unicodeRoman = [0x2160, 0x2161, 0x2162, 0x2163, 0x2164, 0x2165, 0x2166, 0x2167, 0x2168, 0x2169]"

definition asciiRoman :: "ustring list" where
  "asciiRoman = [asc ''VIII'', asc ''VII'', asc ''VI'', asc ''IV'', asc ''IX'', asc ''III'',
                 asc ''II'', asc ''I'', asc ''X'']"

text \<open>The numeral alternative, anchored at the end: it has to be the whole rest.\<close>

definition numeralHere :: "ustring \<Rightarrow> bool" where
  "numeralHere r \<longleftrightarrow> (case r of [c] \<Rightarrow> c \<in> set unicodeRoman | _ \<Rightarrow> False) \<or> r \<in> set asciiRoman"

text \<open>\<^verbatim>\<open>s*(?:...)$\<close> matches the rest: some letters \<^verbatim>\<open>s\<close>, then a numeral up to the end.\<close>

fun matchTail :: "ustring \<Rightarrow> bool" where
  "matchTail [] = numeralHere []"
| "matchTail (c # cs) = (numeralHere (c # cs) \<or> (c = of_char CHR ''s'' \<and> matchTail cs))"

text \<open>
  \<^verbatim>\<open>^(.*?)\<close>: the lazy group grows one code unit at a time from the start, never over a
  line terminator, and stops at the first length at which the rest matches. The result
  is the group \<^verbatim>\<open>m[1]\<close>; \<open>None\<close> is a failed match.
\<close>

fun lazyPrefix :: "ustring \<Rightarrow> ustring \<Rightarrow> ustring option" where
  "lazyPrefix pre [] = (if matchTail [] then Some pre else None)"
| "lazyPrefix pre (c # cs) =
     (if matchTail (c # cs) then Some pre
      else if isLineTerminator c then None
      else lazyPrefix (pre @ [c]) cs)"

text \<open>The table \<^verbatim>\<open>map\<close> of lines 82 to 87, in its order.\<close>

definition romanMap :: "(ustring \<times> nat) list" where
  "romanMap =
     [(asc ''I'', 1), (asc ''II'', 2), (asc ''III'', 3), (asc ''IV'', 4), (asc ''V'', 5),
      (asc ''VI'', 6), (asc ''VII'', 7), (asc ''VIII'', 8), (asc ''IX'', 9), (asc ''X'', 10),
      ([0x2160], 1), ([0x2161], 2), ([0x2162], 3), ([0x2163], 4), ([0x2164], 5),
      ([0x2165], 6), ([0x2166], 7), ([0x2167], 8), ([0x2168], 9), ([0x2169], 10)]"

record HierLevel =
  base :: ustring
  level :: nat

definition parseHierLevel :: "(ustring \<Rightarrow> ustring) \<Rightarrow> ustring option \<Rightarrow> HierLevel option" where
  "parseHierLevel nfkc name =
     (case name of
        None \<Rightarrow> None
      | Some n \<Rightarrow>
          if n = [] then None
          else
            (let s = nfkc (trim n) in
             case lazyPrefix [] s of
               None \<Rightarrow> None
             | Some m1 \<Rightarrow>
                 (let roman = trim (drop (length m1) s) in
                  case map_of romanMap roman of
                    None \<Rightarrow> None
                  | Some lv \<Rightarrow>
                      if lv = 0 then None
                      else
                        (let b = trim m1 in
                         if b = [] then None else Some \<lparr>base = b, level = lv\<rparr>))))"

section \<open>Course names: \<^verbatim>\<open>normCourseName\<close>, \<^verbatim>\<open>isKoreanHistory\<close>\<close>

definition normCourseName :: "(ustring \<Rightarrow> ustring) \<Rightarrow> ustring option \<Rightarrow> ustring option" where
  "normCourseName nfkc name =
     (case name of
        None \<Rightarrow> None
      | Some n \<Rightarrow> if n = [] then None else Some (parenStrip (nfkc (trim n))))"

text \<open>The three names of line 109: U+D55C U+AD6D U+C0AC, alone or followed by 1 or 2.\<close>

definition KOREAN_HISTORY :: ustring where
  "KOREAN_HISTORY = [0xD55C, 0xAD6D, 0xC0AC]"

definition isKoreanHistory :: "(ustring \<Rightarrow> ustring) \<Rightarrow> ustring option \<Rightarrow> bool" where
  "isKoreanHistory nfkc name =
     (case name of
        None \<Rightarrow> False
      | Some n \<Rightarrow>
          if n = [] then False
          else
            (let s = nfkc (trim n) in
             s = KOREAN_HISTORY \<or> s = KOREAN_HISTORY @ asc ''1'' \<or> s = KOREAN_HISTORY @ asc ''2''))"

section \<open>Rows and the course list of one student\<close>

text \<open>
  \<^verbatim>\<open>Row\<close> (\<^verbatim>\<open>types.ts\<close>, here \<^verbatim>\<open>unnamed/part_001\<close>): the nine columns, each
  \<^verbatim>\<open>number | null\<close> or \<^verbatim>\<open>string | null\<close>. The Korean column names are written with the names
  of the spec's data model, in the order of the type: student grade, class, number and
  name, course grade and term, subject group, course name, credit. Grade, class, number
  and the course's grade and term are integers; a credit is the rational number of the
  cell. The runtime holds it as a binary64 number: the section on the summary gives the
  sums of credits in exact arithmetic, the section after it in binary64 arithmetic.
\<close>

record Row =
  studentGrade :: "int option"
  studentClass :: "int option"
  studentNumber :: "int option"
  studentName :: "ustring option"
  courseGrade :: "int option"
  courseTerm :: "int option"
  subjectGroup :: "ustring option"
  courseName :: "ustring option"
  credit :: "rat option"

text \<open>
  The element of \<^verbatim>\<open>list\<close> in \<^verbatim>\<open>exportAll\<close> (lines 362 to 368): the canonical group, the
  course name or the empty string, the credit or 0.
\<close>

record Item =
  itemGroup :: ustring
  itemName :: ustring
  itemCredit :: rat
  itemGrade :: "int option"
  itemTerm :: "int option"

definition toItem :: "(ustring \<Rightarrow> ustring) \<Rightarrow> Row \<Rightarrow> Item" where
  "toItem nfkc r =
     \<lparr>itemGroup = canonGroup nfkc (subjectGroup r),
      itemName = (case courseName r of None \<Rightarrow> [] | Some n \<Rightarrow> n),
      itemCredit = (case credit r of None \<Rightarrow> 0 | Some c \<Rightarrow> c),
      itemGrade = courseGrade r,
      itemTerm = courseTerm r\<rparr>"

subsection \<open>Printing numbers and joining strings\<close>

function showNat :: "nat \<Rightarrow> ustring" where
  "showNat n = (if n < 10 then [48 + n] else showNat (n div 10) @ [48 + n mod 10])"
  by pat_completeness auto
termination
  by (relation "measure (\<lambda>n. n)") auto

declare showNat.simps [simp del]

definition showInt :: "int \<Rightarrow> ustring" where
  "showInt i = (if i < 0 then of_char CHR ''-'' # showNat (nat (- i)) else showNat (nat i))"

text \<open>\<^verbatim>\<open>Array.prototype.join\<close>.\<close>

fun joinWith :: "ustring \<Rightarrow> ustring list \<Rightarrow> ustring" where
  "joinWith sep [] = []"
| "joinWith sep [x] = x"
| "joinWith sep (x # y # ys) = x @ sep @ joinWith sep (y # ys)"

section \<open>The prerequisite table: \<^verbatim>\<open>PREREQS\<close>\<close>

text \<open>
  \<^verbatim>\<open>rawPrereqs\<close> is the content of \<^verbatim>\<open>prereqs.json\<close>, which is not among the sources: the
  entries, in the order of \<^verbatim>\<open>Object.entries\<close>, are the argument \<open>raw\<close>. A \<^verbatim>\<open>Map\<close> is an
  association list in insertion order; \<^verbatim>\<open>m.set\<close> is \<open>AList.update\<close>, which replaces the
  value of a key that is present where it stands and appends a new key.
\<close>

definition normReqs :: "(ustring \<Rightarrow> ustring) \<Rightarrow> ustring list \<Rightarrow> ustring list" where
  "normReqs nfkc arr =
     List.map_filter
       (\<lambda>v. case normCourseName nfkc (Some v) of
               None \<Rightarrow> None
             | Some x \<Rightarrow> if x = [] then None else Some x)
       arr"

definition loadEntry ::
  "(ustring \<Rightarrow> ustring) \<Rightarrow> ustring \<times> ustring list \<Rightarrow> (ustring \<times> ustring list) list
    \<Rightarrow> (ustring \<times> ustring list) list" where
  "loadEntry nfkc e m =
     (case normCourseName nfkc (Some (fst e)) of
        None \<Rightarrow> m
      | Some nk \<Rightarrow> if nk = [] then m else AList.update nk (normReqs nfkc (snd e)) m)"

definition PREREQS ::
  "(ustring \<Rightarrow> ustring) \<Rightarrow> (ustring \<times> ustring list) list \<Rightarrow> (ustring \<times> ustring list) list" where
  "PREREQS nfkc raw = fold (loadEntry nfkc) raw []"

section \<open>The checks of one student: \<^verbatim>\<open>buildChecks\<close>\<close>

text \<open>
  \<^verbatim>\<open>byBase\<close> maps a base name to the \<^verbatim>\<open>Set\<close> of its levels, a list without repetition in
  insertion order.
\<close>

definition addLevel :: "HierLevel \<Rightarrow> (ustring \<times> nat list) list \<Rightarrow> (ustring \<times> nat list) list" where
  "addLevel ph byBase =
     (let s = (case map_of byBase (base ph) of None \<Rightarrow> [] | Some s0 \<Rightarrow> s0)
      in AList.update (base ph) (if level ph \<in> set s then s else s @ [level ph]) byBase)"

definition levelsByBase :: "(ustring \<Rightarrow> ustring) \<Rightarrow> Item list \<Rightarrow> (ustring \<times> nat list) list" where
  "levelsByBase nfkc list =
     fold (\<lambda>r byBase. case parseHierLevel nfkc (Some (itemName r)) of
                         None \<Rightarrow> byBase
                       | Some ph \<Rightarrow> addLevel ph byBase)
       list []"

text \<open>
  \<^verbatim>\<open>Math.max(...levels)\<close>; every set of \<^verbatim>\<open>byBase\<close> has a level, and levels are positive, so
  the fold may start from 0. \<open>missingLevels\<close> is the loop of line 337.
\<close>

definition maxLevel :: "nat list \<Rightarrow> nat" where
  "maxLevel levels = foldr max levels 0"

definition missingLevels :: "nat list \<Rightarrow> nat list" where
  "missingLevels s = filter (\<lambda>i. i \<notin> set s) [1..<maxLevel s]"

definition seqViolations :: "(ustring \<Rightarrow> ustring) \<Rightarrow> Item list \<Rightarrow> (ustring \<times> nat list) list" where
  "seqViolations nfkc list =
     filter (\<lambda>v. snd v \<noteq> [])
       (map (\<lambda>e. (fst e, missingLevels (snd e))) (levelsByBase nfkc list))"

text \<open>
  The same loop in the student view (\<^verbatim>\<open>seq\<close>, lines 499 to 517) keeps the sorted levels
  beside the missing ones.
\<close>

definition seq :: "(ustring \<Rightarrow> ustring) \<Rightarrow> Item list \<Rightarrow> (ustring \<times> nat list \<times> nat list) list" where
  "seq nfkc list =
     map (\<lambda>e. (fst e, sort (snd e), missingLevels (snd e)))
       (filter (\<lambda>e. missingLevels (snd e) \<noteq> []) (levelsByBase nfkc list))"

text \<open>The names of the student, normalized; empty names are left out (line 342).\<close>

definition haveNames :: "(ustring \<Rightarrow> ustring) \<Rightarrow> Item list \<Rightarrow> ustring list" where
  "haveNames nfkc list =
     List.map_filter
       (\<lambda>r. case normCourseName nfkc (Some (itemName r)) of
               None \<Rightarrow> None
             | Some nm \<Rightarrow> if nm = [] then None else Some nm)
       list"

definition explicitViolations ::
  "(ustring \<Rightarrow> ustring) \<Rightarrow> (ustring \<times> ustring list) list \<Rightarrow> Item list
    \<Rightarrow> (ustring \<times> ustring list) list" where
  "explicitViolations nfkc prereqs list =
     (let have = haveNames nfkc list in
      filter (\<lambda>v. snd v \<noteq> [])
        (map (\<lambda>e. (fst e, filter (\<lambda>r. r \<notin> set have) (snd e)))
           (filter (\<lambda>e. fst e \<in> set have) prereqs)))"

text \<open>
  The literals of lines 338, 347 and 350: U+B204 U+B77D ("missing"), U+C120 U+C218
  ("prerequisite"), U+2192 (the arrow) and the seven syllables of "Roman-numeral
  hierarchy violation".
\<close>

definition NURAK :: ustring where
  "NURAK = [0xB204, 0xB77D]"

definition SEONSU :: ustring where
  "SEONSU = [0xC120, 0xC218]"

definition HIERARCHY_VIOLATION :: ustring where
  "HIERARCHY_VIOLATION = [0xB85C, 0xB9C8, 0xC790, 0x20, 0xC704, 0xACC4, 0x20, 0xC704, 0xBC18]"

definition seqPart :: "ustring \<times> nat list \<Rightarrow> ustring" where
  "seqPart v = fst v @ asc '': '' @ NURAK @ asc '' '' @ joinWith (asc '', '') (map showNat (snd v))"

definition explicitPart :: "ustring \<times> ustring list \<Rightarrow> ustring" where
  "explicitPart v =
     fst v @ asc '': '' @ SEONSU @ asc '' '' @ NURAK @ [0x20, 0x2192, 0x20] @ joinWith (asc '', '') (snd v)"

definition buildChecks ::
  "(ustring \<Rightarrow> ustring) \<Rightarrow> (ustring \<times> ustring list) list \<Rightarrow> Item list \<Rightarrow> ustring" where
  "buildChecks nfkc prereqs list =
     (let seqParts = map seqPart (seqViolations nfkc list);
          explicitParts = map explicitPart (explicitViolations nfkc prereqs list)
      in joinWith (asc '' | '')
           ((if seqParts \<noteq> []
             then [HIERARCHY_VIOLATION @ asc '': '' @ joinWith (asc ''; '') seqParts] else [])
            @ (if explicitParts \<noteq> [] then [joinWith (asc ''; '') explicitParts] else [])))"

section \<open>The summary of one student\<close>

text \<open>
  Lines 369 to 379. \<^verbatim>\<open>reduce\<close> from 0 is a left fold. \<open>foundation\<close> holds the three
  group labels of line 315 (Korean, mathematics, English). \<^verbatim>\<open>Math.round\<close> rounds to the
  nearest integer, a half upwards. \<open>RATIO_EXCEEDED\<close> is the flag text of line 378.

  Sums, quotient and product are exact in this section: \<open>total\<close>, \<open>baseOnly\<close>, \<open>khOnly\<close>
  and \<open>pct\<close> are the values of lines 371 to 374 as long as no operation of the runtime
  rounds. The next section has the same lines in the arithmetic of the runtime
  (\<open>total64\<close>, \<open>baseOnly64\<close>, \<open>khOnly64\<close>, \<open>pct64\<close>, \<open>checkText64\<close>). For whole-number
  credits the sums of the two sections are equal (\<open>whole_credits_exact\<close>) and the ratio
  of the runtime is the binary64 value of \<open>pct\<close> unless the percentage is exactly halfway
  between two tenths (\<open>pct64_whole_credits\<close>).
\<close>

definition foundation :: "ustring list" where
  "foundation = [[0xAD6D, 0xC5B4], [0xC218, 0xD559], [0xC601, 0xC5B4]]"

definition total :: "Item list \<Rightarrow> rat" where
  "total list = foldl (\<lambda>sum r. sum + itemCredit r) 0 list"

definition baseOnly :: "Item list \<Rightarrow> rat" where
  "baseOnly list =
     foldl (\<lambda>sum r. sum + (if itemGroup r \<in> set foundation then itemCredit r else 0)) 0 list"

definition khOnly :: "(ustring \<Rightarrow> ustring) \<Rightarrow> Item list \<Rightarrow> rat" where
  "khOnly nfkc list =
     foldl (\<lambda>sum r. sum + (if isKoreanHistory nfkc (Some (itemName r)) then itemCredit r else 0))
       0 list"

definition mathRound :: "rat \<Rightarrow> int" where
  "mathRound x = \<lfloor>x + 1 / 2\<rfloor>"

definition pct :: "(ustring \<Rightarrow> ustring) \<Rightarrow> Item list \<Rightarrow> rat" where
  "pct nfkc list =
     (if total list > 0
      then of_int (mathRound (((baseOnly list + khOnly nfkc list) / total list) * 1000)) / 10
      else 0)"

definition RATIO_EXCEEDED :: ustring where
  "RATIO_EXCEEDED = [0xAE30, 0xCD08, 0xAD50, 0xACFC, 0x20, 0xBE44, 0xC728, 0x20, 0xCD08, 0xACFC]"

definition checkText ::
  "(ustring \<Rightarrow> ustring) \<Rightarrow> (ustring \<times> ustring list) list \<Rightarrow> Item list \<Rightarrow> ustring" where
  "checkText nfkc prereqs list =
     (let hierarchyCheck = buildChecks nfkc prereqs list in
      joinWith (asc '' | '')
        ((if hierarchyCheck \<noteq> [] then [hierarchyCheck] else [])
         @ (if pct nfkc list > 50 then [RATIO_EXCEEDED] else [])))"

text \<open>The credit sums per group (\<^verbatim>\<open>grp\<close>, line 370) and the read \<^verbatim>\<open>grp.get(g) || 0\<close>.\<close>

definition groupSums :: "Item list \<Rightarrow> (ustring \<times> rat) list" where
  "groupSums list =
     fold (\<lambda>r grp. AList.update (itemGroup r)
              ((case map_of grp (itemGroup r) of None \<Rightarrow> 0 | Some v \<Rightarrow> v) + itemCredit r) grp)
       list []"

definition groupSum :: "(ustring \<times> rat) list \<Rightarrow> ustring \<Rightarrow> rat" where
  "groupSum grp g = (case map_of grp g of None \<Rightarrow> 0 | Some v \<Rightarrow> v)"

section \<open>The summary of one student in binary64 arithmetic\<close>

text \<open>
  A JavaScript number is an IEEE 754 binary64 value, and \<^verbatim>\<open>+\<close>, \<^verbatim>\<open>*\<close> and \<^verbatim>\<open>/\<close> return the
  exact result rounded to the nearest binary64 value, a tie to the value with the even
  significand. \<open>Number\<close> has the finite values by their rational value, the two
  infinities and NaN. The two zeros are the one value \<open>Fin 0\<close>: lines 371 to 378 compare
  numbers with \<^verbatim>\<open>>\<close>, which does not tell the zeros apart, divide by 10 and by a total
  greater than 0, and a sum that starts from 0 is never the negative zero.
\<close>

datatype Number = Fin rat | PosInf | NegInf | NaN

text \<open>
  The binary exponent of a positive \<open>x\<close>: \<open>2 powi expo x \<le> x < 2 powi (expo x + 1)\<close>,
  counted upwards from 1 (\<open>expoGe\<close>) or downwards (\<open>expoLt\<close>).
\<close>

function expoGe :: "rat \<Rightarrow> int" where
  "expoGe x = (if 2 \<le> x then expoGe (x / 2) + 1 else 0)"
  by pat_completeness auto
termination
proof (relation "measure (\<lambda>x. nat \<lfloor>x\<rfloor>)")
  show "wf (measure (\<lambda>x :: rat. nat \<lfloor>x\<rfloor>))" by simp
next
  fix x :: rat
  assume x: "2 \<le> x"
  have "x / 2 \<le> x - 1" using x by simp
  then have "\<lfloor>x / 2\<rfloor> \<le> \<lfloor>x - 1\<rfloor>" by (rule floor_mono)
  then have "\<lfloor>x / 2\<rfloor> < \<lfloor>x\<rfloor>" by simp
  moreover have "0 < \<lfloor>x\<rfloor>" using x by simp
  ultimately show "(x / 2, x) \<in> measure (\<lambda>x. nat \<lfloor>x\<rfloor>)" by simp
qed

declare expoGe.simps [simp del]

function expoLt :: "rat \<Rightarrow> int" where
  "expoLt x = (if 0 < x \<and> x < 1 then expoLt (2 * x) - 1 else 0)"
  by pat_completeness auto
termination
proof (relation "measure (\<lambda>x. nat \<lceil>1 / x\<rceil>)")
  show "wf (measure (\<lambda>x :: rat. nat \<lceil>1 / x\<rceil>))" by simp
next
  fix x :: rat
  assume x: "0 < x \<and> x < 1"
  then have y: "1 < 1 / x" by simp
  then have c: "2 \<le> \<lceil>1 / x\<rceil>" by (simp add: less_ceiling_iff)
  have "1 / x \<le> of_int \<lceil>1 / x\<rceil>" by (rule le_of_int_ceiling)
  then have "1 / (2 * x) \<le> of_int \<lceil>1 / x\<rceil> / 2" by simp
  also have "\<dots> \<le> of_int (\<lceil>1 / x\<rceil> - 1)" using c by simp
  finally have "\<lceil>1 / (2 * x)\<rceil> \<le> \<lceil>1 / x\<rceil> - 1" by (simp only: ceiling_le_iff)
  then have "nat \<lceil>1 / (2 * x)\<rceil> < nat \<lceil>1 / x\<rceil>" using c by linarith
  then show "(2 * x, x) \<in> measure (\<lambda>x. nat \<lceil>1 / x\<rceil>)" by (simp only: in_measure)
qed

declare expoLt.simps [simp del]

definition expo :: "rat \<Rightarrow> int" where
  "expo x = (if 1 \<le> x then expoGe x else expoLt x)"

text \<open>
  Rounding to the nearest binary64 value. The significand has 53 bits: the binary64
  values around a positive \<open>a\<close> are the multiples of \<open>2 powi (expo a - 52)\<close>, and below the
  least normal exponent \<open>- 1022\<close> the multiples of \<open>2 powi (- 1074)\<close>. \<open>nearest a\<close> is the
  multiple nearest to \<open>a\<close>, of two equally near the even one; a nearest multiple of
  \<open>2 powi 1024\<close> or more is an infinity.
\<close>

definition roundHalfEven :: "rat \<Rightarrow> int" where
  "roundHalfEven y =
     (let f = \<lfloor>y\<rfloor>; d = y - of_int f
      in if d < 1 / 2 then f else if 1 / 2 < d then f + 1 else if even f then f else f + 1)"

definition nearest :: "rat \<Rightarrow> rat" where
  "nearest a =
     (let q = max (expo a) (- 1022) - 52 in of_int (roundHalfEven (a / 2 powi q)) * 2 powi q)"

definition fl :: "rat \<Rightarrow> Number" where
  "fl x =
     (if x = 0 then Fin 0
      else
        (let v = nearest \<bar>x\<bar>
         in if 2 powi 1024 \<le> v then (if 0 < x then PosInf else NegInf)
            else Fin (if 0 < x then v else - v)))"

text \<open>
  The operations of lines 371 to 378 on numbers: the rounded exact result on finite
  values, and the results of IEEE 754 on the infinities and NaN; a zero divisor is the
  positive zero. \<^verbatim>\<open>Math.round\<close> returns the integer nearest to its argument, of two
  equally near the greater one, and is exact; \<open>gtN\<close> is \<^verbatim>\<open>>\<close>, false when an operand is
  NaN.
\<close>

fun negN :: "Number \<Rightarrow> Number" where
  "negN (Fin a) = Fin (- a)"
| "negN PosInf = NegInf"
| "negN NegInf = PosInf"
| "negN NaN = NaN"

fun addN :: "Number \<Rightarrow> Number \<Rightarrow> Number" where
  "addN (Fin a) (Fin b) = fl (a + b)"
| "addN NaN y = NaN"
| "addN x NaN = NaN"
| "addN PosInf NegInf = NaN"
| "addN NegInf PosInf = NaN"
| "addN PosInf y = PosInf"
| "addN NegInf y = NegInf"
| "addN x y = y"

fun mulN :: "Number \<Rightarrow> Number \<Rightarrow> Number" where
  "mulN (Fin a) (Fin b) = fl (a * b)"
| "mulN NaN y = NaN"
| "mulN x NaN = NaN"
| "mulN (Fin a) y = (if a = 0 then NaN else if 0 < a then y else negN y)"
| "mulN x (Fin b) = (if b = 0 then NaN else if 0 < b then x else negN x)"
| "mulN PosInf y = y"
| "mulN NegInf y = negN y"

fun divN :: "Number \<Rightarrow> Number \<Rightarrow> Number" where
  "divN (Fin a) (Fin b) =
     (if b = 0 then (if a = 0 then NaN else if 0 < a then PosInf else NegInf) else fl (a / b))"
| "divN NaN y = NaN"
| "divN x NaN = NaN"
| "divN (Fin a) y = Fin 0"
| "divN PosInf (Fin b) = (if 0 \<le> b then PosInf else NegInf)"
| "divN NegInf (Fin b) = (if 0 \<le> b then NegInf else PosInf)"
| "divN x y = NaN"

fun roundN :: "Number \<Rightarrow> Number" where
  "roundN (Fin x) = Fin (of_int \<lfloor>x + 1 / 2\<rfloor>)"
| "roundN x = x"

fun gtN :: "Number \<Rightarrow> Number \<Rightarrow> bool" where
  "gtN (Fin a) (Fin b) = (b < a)"
| "gtN NaN y = False"
| "gtN x NaN = False"
| "gtN x PosInf = False"
| "gtN NegInf y = False"
| "gtN x y = True"

text \<open>
  Lines 371 to 378 on numbers. The credit of a course is the binary64 value of its cell,
  \<open>creditN\<close>; the sums add it from 0 with a rounding at every step.
\<close>

definition creditN :: "Item \<Rightarrow> Number" where
  "creditN r = fl (itemCredit r)"

definition total64 :: "Item list \<Rightarrow> Number" where
  "total64 list = foldl (\<lambda>sum r. addN sum (creditN r)) (Fin 0) list"

definition baseOnly64 :: "Item list \<Rightarrow> Number" where
  "baseOnly64 list =
     foldl (\<lambda>sum r. addN sum (if itemGroup r \<in> set foundation then creditN r else Fin 0))
       (Fin 0) list"

definition khOnly64 :: "(ustring \<Rightarrow> ustring) \<Rightarrow> Item list \<Rightarrow> Number" where
  "khOnly64 nfkc list =
     foldl (\<lambda>sum r. addN sum (if isKoreanHistory nfkc (Some (itemName r)) then creditN r else Fin 0))
       (Fin 0) list"

definition pct64 :: "(ustring \<Rightarrow> ustring) \<Rightarrow> Item list \<Rightarrow> Number" where
  "pct64 nfkc list =
     (if gtN (total64 list) (Fin 0)
      then divN (roundN (mulN (divN (addN (baseOnly64 list) (khOnly64 nfkc list)) (total64 list))
                           (Fin 1000)))
             (Fin 10)
      else Fin 0)"


section \<open>The export: \<^verbatim>\<open>exportAll\<close>\<close>

text \<open>
  The student key of line 310, three numbers joined by hyphens, and the comparison of
  lines 356 to 359, which splits the key at every hyphen and reads the first three
  parts as numbers. A part of a key of three integers is empty or a run of digits:
  \<^verbatim>\<open>Number\<close> gives 0 for the empty string and the value of the digits. \<open>None\<close> is
  \<^verbatim>\<open>NaN\<close>, which no such part gives. A difference that is \<^verbatim>\<open>NaN\<close> is falsy under
  \<^verbatim>\<open>||\<close>, and the sort reads it as 0.
\<close>

definition studentKey :: "int \<Rightarrow> int \<Rightarrow> int \<Rightarrow> ustring" where
  "studentKey g c n = showInt g @ asc ''-'' @ showInt c @ asc ''-'' @ showInt n"

fun splitOn :: "nat \<Rightarrow> ustring \<Rightarrow> ustring list" where
  "splitOn d [] = [[]]"
| "splitOn d (c # cs) =
     (if c = d then [] # splitOn d cs
      else (case splitOn d cs of [] \<Rightarrow> [[c]] | p # ps \<Rightarrow> (c # p) # ps))"

definition isDigit :: "nat \<Rightarrow> bool" where
  "isDigit c \<longleftrightarrow> 48 \<le> c \<and> c \<le> 57"

definition digitsValue :: "ustring \<Rightarrow> nat" where
  "digitsValue s = foldl (\<lambda>v c. 10 * v + (c - 48)) 0 s"

definition jsNumber :: "ustring \<Rightarrow> int option" where
  "jsNumber s = (if list_all isDigit s then Some (int (digitsValue s)) else None)"

definition keyNumbers :: "ustring \<Rightarrow> int option \<times> int option \<times> int option" where
  "keyNumbers k =
     (let parts = map jsNumber (splitOn (of_char CHR ''-'') k);
          part = (\<lambda>i. if i < length parts then parts ! i else None)
      in (part 0, part 1, part 2))"

definition jsDiff :: "int option \<Rightarrow> int option \<Rightarrow> int" where
  "jsDiff a b = (case (a, b) of (Some x, Some y) \<Rightarrow> x - y | _ \<Rightarrow> 0)"

definition compareKeys :: "ustring \<Rightarrow> ustring \<Rightarrow> int" where
  "compareKeys a b =
     (case (keyNumbers a, keyNumbers b) of
        ((ag, ac, an), (bg, bc, bn)) \<Rightarrow>
          if jsDiff ag bg \<noteq> 0 then jsDiff ag bg
          else if jsDiff ac bc \<noteq> 0 then jsDiff ac bc
          else jsDiff an bn)"

text \<open>
  \<^verbatim>\<open>Array.prototype.sort\<close> with a comparison function is stable; on a consistent
  comparison every stable sort gives the same list, here by insertion from the right.
\<close>

fun insertBy :: "('a \<Rightarrow> 'a \<Rightarrow> int) \<Rightarrow> 'a \<Rightarrow> 'a list \<Rightarrow> 'a list" where
  "insertBy cmp x [] = [x]"
| "insertBy cmp x (y # ys) = (if cmp x y \<le> 0 then x # y # ys else y # insertBy cmp x ys)"

definition sortBy :: "('a \<Rightarrow> 'a \<Rightarrow> int) \<Rightarrow> 'a list \<Rightarrow> 'a list" where
  "sortBy cmp xs = foldr (insertBy cmp) xs []"

text \<open>The entry of \<^verbatim>\<open>byStu\<close> (line 307) and the loop of lines 308 to 314.\<close>

record Student =
  stGrade :: "int option"
  stClass :: "int option"
  stNumber :: "int option"
  stName :: "ustring option"
  stList :: "Row list"

definition addRow :: "Row \<Rightarrow> (ustring \<times> Student) list \<Rightarrow> (ustring \<times> Student) list" where
  "addRow r byStu =
     (case (studentGrade r, studentClass r, studentNumber r) of
        (Some g, Some c, Some n) \<Rightarrow>
          (let key = studentKey g c n;
               ent = (case map_of byStu key of
                        None \<Rightarrow> \<lparr>stGrade = studentGrade r, stClass = studentClass r,
                                 stNumber = studentNumber r, stName = studentName r, stList = []\<rparr>
                      | Some e \<Rightarrow> e)
           in AList.update key (ent\<lparr>stList := stList ent @ [r]\<rparr>) byStu)
      | _ \<Rightarrow> byStu)"

definition byStu :: "Row list \<Rightarrow> (ustring \<times> Student) list" where
  "byStu rows = fold addRow rows []"

text \<open>
  One record of the sheet (lines 381 to 383): the identity, one sum per group column,
  the three sums, the ratio and the check text. The group columns are the canonical
  groups of all rows in the order of their first occurrence (a \<^verbatim>\<open>Set\<close>), sorted by
  \<^verbatim>\<open>localeCompare(b, 'ko')\<close>; the collation belongs to the runtime, so the sort of the
  columns is the argument \<open>koSort\<close>. The sums and the ratio of a record are the exact
  ones of the section on the summary; the statements about the export are about the
  identity columns and the order of the records.
\<close>

record OutRow =
  outGrade :: "int option"
  outClass :: "int option"
  outNumber :: "int option"
  outName :: ustring
  outGroups :: "rat list"
  outTotal :: rat
  outBase :: rat
  outKh :: rat
  outPct :: rat
  outCheck :: ustring

definition outRow ::
  "(ustring \<Rightarrow> ustring) \<Rightarrow> (ustring \<times> ustring list) list \<Rightarrow> ustring list \<Rightarrow> Student \<Rightarrow> OutRow" where
  "outRow nfkc prereqs groups s =
     (let list = map (toItem nfkc) (stList s);
          grp = groupSums list
      in \<lparr>outGrade = stGrade s, outClass = stClass s, outNumber = stNumber s,
          outName = (case stName s of None \<Rightarrow> [] | Some n \<Rightarrow> n),
          outGroups = map (groupSum grp) groups,
          outTotal = total list, outBase = baseOnly list, outKh = khOnly nfkc list,
          outPct = pct nfkc list, outCheck = checkText nfkc prereqs list\<rparr>)"

definition groupColumns ::
  "(ustring \<Rightarrow> ustring) \<Rightarrow> (ustring list \<Rightarrow> ustring list) \<Rightarrow> Row list \<Rightarrow> ustring list" where
  "groupColumns nfkc koSort rows =
     koSort (rev (remdups (rev (map (\<lambda>r. canonGroup nfkc (subjectGroup r)) rows))))"

definition exportRows ::
  "(ustring \<Rightarrow> ustring) \<Rightarrow> (ustring list \<Rightarrow> ustring list) \<Rightarrow> (ustring \<times> ustring list) list
    \<Rightarrow> Row list \<Rightarrow> OutRow list" where
  "exportRows nfkc koSort prereqs rows =
     (let groups = groupColumns nfkc koSort rows;
          m = byStu rows;
          keys = sortBy compareKeys (map fst m)
      in List.map_filter (\<lambda>key. map_option (outRow nfkc prereqs groups) (map_of m key)) keys)"

text \<open>\<^verbatim>\<open>exportAll\<close> writes nothing for an empty row set (line 300): \<open>None\<close>.\<close>

definition exportAll ::
  "(ustring \<Rightarrow> ustring) \<Rightarrow> (ustring list \<Rightarrow> ustring list) \<Rightarrow> (ustring \<times> ustring list) list
    \<Rightarrow> Row list \<Rightarrow> OutRow list option" where
  "exportAll nfkc koSort prereqs rows =
     (if rows = [] then None else Some (exportRows nfkc koSort prereqs rows))"

section \<open>Constants of the statements\<close>

text \<open>
  The literals that \<^verbatim>\<open>canonGroup\<close> compares with (lines 57 to 63), as one list, and the
  course name U+BB3C U+B9AC U+D559 (physics) of the examples.
\<close>

definition aliases :: "ustring list" where
  "aliases = [target, LIBERAL_ARTS, SECOND_LANGUAGE, SECOND_LANGUAGE_CHINESE, CLASSICAL_CHINESE,
              TECH_HOME, TECH_HOME_INFO]"

definition PHYSICS :: ustring where
  "PHYSICS = [0xBB3C, 0xB9AC, 0xD559]"

text \<open>
  A course of the list of one student, without course grade and term; the group label
  U+AD6D U+C5B4 (Korean), the first of the foundation groups.
\<close>

definition item :: "ustring \<Rightarrow> ustring \<Rightarrow> rat \<Rightarrow> Item" where
  "item g n c = \<lparr>itemGroup = g, itemName = n, itemCredit = c, itemGrade = None, itemTerm = None\<rparr>"

definition KOREAN_LANGUAGE :: ustring where
  "KOREAN_LANGUAGE = [0xAD6D, 0xC5B4]"

text \<open>
  The levels that a course list attains for a base name: the levels of the courses that
  \<^verbatim>\<open>parseHierLevel\<close> parses with that base. \<open>CHEMISTRY\<close> is the base U+D654 U+D559 of the
  examples.
\<close>

definition attained :: "(ustring \<Rightarrow> ustring) \<Rightarrow> Item list \<Rightarrow> ustring \<Rightarrow> nat set" where
  "attained nfkc list b =
     {lv. \<exists>r \<in> set list. parseHierLevel nfkc (Some (itemName r)) = Some \<lparr>base = b, level = lv\<rparr>}"

definition CHEMISTRY :: ustring where
  "CHEMISTRY = [0xD654, 0xD559]"

text \<open>
  For the proofs about \<^verbatim>\<open>byBase\<close>: the set of levels stored for a base, and the body of the
  loop of lines 325 to 331.
\<close>

definition levelSet :: "(ustring \<times> nat list) list \<Rightarrow> ustring \<Rightarrow> nat set" where
  "levelSet m b = (case map_of m b of None \<Rightarrow> {} | Some s \<Rightarrow> set s)"

definition levelStep :: "(ustring \<Rightarrow> ustring) \<Rightarrow> Item \<Rightarrow> (ustring \<times> nat list) list \<Rightarrow> (ustring \<times> nat list) list" where
  "levelStep nfkc r m = (case parseHierLevel nfkc (Some (itemName r)) of None \<Rightarrow> m | Some ph \<Rightarrow> addLevel ph m)"

text \<open>
  The names of the prerequisite example: U+BBF8 U+C801 U+BD84 (calculus) and
  U+C218 U+D559 (mathematics), which takes a Roman numeral.
\<close>

definition CALCULUS :: ustring where
  "CALCULUS = [0xBBF8, 0xC801, 0xBD84]"

definition MATHEMATICS :: ustring where
  "MATHEMATICS = [0xC218, 0xD559]"

text \<open>A row with its student key, group, course name and credit; the other columns empty.\<close>

definition row ::
  "int option \<Rightarrow> int option \<Rightarrow> int option \<Rightarrow> ustring option \<Rightarrow> ustring option \<Rightarrow> rat option \<Rightarrow> Row" where
  "row g c n grp nm cr =
     \<lparr>studentGrade = g, studentClass = c, studentNumber = n, studentName = None,
      courseGrade = None, courseTerm = None, subjectGroup = grp, courseName = nm, credit = cr\<rparr>"

text \<open>The identity columns of a record of the export.\<close>

definition outKey :: "OutRow \<Rightarrow> int option \<times> int option \<times> int option" where
  "outKey out = (outGrade out, outClass out, outNumber out)"

text \<open>
  For the proofs about the rewriting steps: \<open>wsdel s t\<close> holds when \<open>t\<close> is \<open>s\<close> without
  some of its white space.
\<close>

inductive wsdel :: "ustring \<Rightarrow> ustring \<Rightarrow> bool" where
  wsdel_Nil: "wsdel [] []"
| wsdel_keep: "wsdel s t \<Longrightarrow> wsdel (c # s) (c # t)"
| wsdel_drop: "isSpace c \<Longrightarrow> wsdel s t \<Longrightarrow> wsdel (c # s) t"

text \<open>
  A separator \<open>d\<close> has no white space beside it: no pair of neighbours is white space
  followed by \<open>d\<close>, or \<open>d\<close> followed by white space. \<open>clean d p s\<close> reads \<open>s\<close> behind
  the code unit \<open>p\<close>, if there is one; \<open>startOk d p s\<close> is what the input of
  \<open>stripAround\<close> has to satisfy behind \<open>p\<close> for the output to be clean there.
\<close>

definition pairOk :: "nat \<Rightarrow> nat option \<Rightarrow> nat \<Rightarrow> bool" where
  "pairOk d p c \<longleftrightarrow> (case p of None \<Rightarrow> True | Some a \<Rightarrow> \<not> (isSpace a \<and> c = d) \<and> \<not> (a = d \<and> isSpace c))"

fun clean :: "nat \<Rightarrow> nat option \<Rightarrow> ustring \<Rightarrow> bool" where
  "clean d p [] = True"
| "clean d p (c # cs) = (pairOk d p c \<and> clean d (Some c) cs)"

definition startOk :: "nat \<Rightarrow> nat option \<Rightarrow> ustring \<Rightarrow> bool" where
  "startOk d p s \<longleftrightarrow>
     (case p of
        None \<Rightarrow> True
      | Some a \<Rightarrow> (isSpace a \<longrightarrow> (case dropWhile isSpace s of [] \<Rightarrow> True | x # xs \<Rightarrow> x \<noteq> d))
                \<and> (a = d \<longrightarrow> (case s of [] \<Rightarrow> True | x # xs \<Rightarrow> \<not> isSpace x)))"

text \<open>
  For the statement about keys that are not negative: the student keys of a row set,
  the key of a row that has all three numbers, and the three numbers that the
  comparison reads from a key string.
\<close>

definition studentKeys :: "Row list \<Rightarrow> (int \<times> int \<times> int) set" where
  "studentKeys rows =
     {(g, c, n). \<exists>r \<in> set rows. studentGrade r = Some g \<and> studentClass r = Some c \<and> studentNumber r = Some n}"

definition keyOf :: "Row \<Rightarrow> (int \<times> int \<times> int) option" where
  "keyOf r =
     (case (studentGrade r, studentClass r, studentNumber r) of
        (Some g, Some c, Some n) \<Rightarrow> Some (g, c, n)
      | _ \<Rightarrow> None)"

definition decodeKey :: "ustring \<Rightarrow> int \<times> int \<times> int" where
  "decodeKey k = (case keyNumbers k of (Some a, Some b, Some c) \<Rightarrow> (a, b, c) | _ \<Rightarrow> (0, 0, 0))"

definition validEntry :: "Row list \<Rightarrow> ustring \<times> Student \<Rightarrow> bool" where
  "validEntry rows e \<longleftrightarrow>
     (\<exists>g c n. (g, c, n) \<in> studentKeys rows \<and> fst e = studentKey g c n
        \<and> stGrade (snd e) = Some g \<and> stClass (snd e) = Some c \<and> stNumber (snd e) = Some n)"

section \<open>Evaluation\<close>

text \<open>The definitions that concrete inputs unfold.\<close>

lemmas string_defs = isSpace_def isLineTerminator_def trim_def removeSpaces_def nfkcTable_def nfkcChar_def
  KDOT_def SLASH_def LPAREN_def RPAREN_def dotChars_def unifyDots_def unifySlash_def
lemmas label_defs = OTHER_def target_def LIBERAL_ARTS_def SECOND_LANGUAGE_def SECOND_LANGUAGE_CHINESE_def
  CLASSICAL_CHINESE_def TECH_HOME_def TECH_HOME_INFO_def aliases_def
lemmas group_defs = canonGroup_def canonGroup_part_000_def normalizeGroup_def rewriteGroup_def
lemmas hier_defs = parseHierLevel_def numeralHere_def unicodeRoman_def asciiRoman_def romanMap_def PHYSICS_def

section \<open>Group canonicalization\<close>

lemma dropWhile_all_iff: "dropWhile P s = [] \<longleftrightarrow> (\<forall>c \<in> set s. P c)"
  by (simp add: dropWhile_eq_Nil_conv)

lemma trim_empty_iff: "trim s = [] \<longleftrightarrow> (\<forall>c \<in> set s. isSpace c)"
proof
  assume "trim s = []"
  then have all: "\<forall>c \<in> set (dropWhile isSpace s). isSpace c"
    by (simp add: trim_def dropWhile_eq_Nil_conv)
  have "dropWhile isSpace s = []"
  proof (rule ccontr)
    assume ne: "dropWhile isSpace s \<noteq> []"
    then have "\<not> isSpace (hd (dropWhile isSpace s))" by (rule hd_dropWhile)
    moreover have "hd (dropWhile isSpace s) \<in> set (dropWhile isSpace s)" using ne by simp
    ultimately show False using all by blast
  qed
  then show "\<forall>c \<in> set s. isSpace c" by (simp add: dropWhile_eq_Nil_conv)
next
  assume "\<forall>c \<in> set s. isSpace c"
  then have d: "dropWhile isSpace s = []" by (simp add: dropWhile_eq_Nil_conv)
  show "trim s = []" unfolding trim_def d by simp
qed

text \<open>
  Claim C9, that the \<^verbatim>\<open>canonGroup\<close> of the two UI variants return the same label for every
  input. The variant of \<^verbatim>\<open>unnamed/part_000\<close> has no comparison with the label
  U+C81C 2 U+C678 U+AD6D U+C5B4 / U+D55C U+BB38 ("second foreign language / classical
  Chinese"): on that label the variant of \<^verbatim>\<open>App.tsx\<close> returns the merged label and the
  other one returns the label itself.
\<close>

theorem canonGroup_variants_differ:
  "canonGroup nfkcTable (Some SECOND_LANGUAGE_CHINESE) = target
   \<and> canonGroup_part_000 nfkcTable (Some SECOND_LANGUAGE_CHINESE) = SECOND_LANGUAGE_CHINESE
   \<and> SECOND_LANGUAGE_CHINESE \<noteq> target"
  by (simp add: group_defs string_defs label_defs)

text \<open>On every other input the two variants agree.\<close>

lemma canonGroup_variants_agree:
  "canonGroup_part_000 nfkc None = canonGroup nfkc None"
  "removeSpaces (normalizeGroup nfkc (trim r)) \<noteq> SECOND_LANGUAGE_CHINESE
    \<Longrightarrow> canonGroup_part_000 nfkc (Some r) = canonGroup nfkc (Some r)"
  by (simp_all add: canonGroup_def canonGroup_part_000_def Let_def)

text \<open>
  Claim C2, as stated: the label for \<^verbatim>\<open>null\<close>, the empty string and white space is the
  string \<^verbatim>\<open>Other\<close>. The code returns U+AE30 U+D0C0.
\<close>

theorem canonGroup_null_is_not_Other:
  "canonGroup nfkcTable None \<noteq> asc ''Other'' \<and> canonGroup nfkcTable (Some []) \<noteq> asc ''Other''
   \<and> canonGroup nfkcTable (Some (asc ''   '')) \<noteq> asc ''Other''"
  by (simp add: group_defs string_defs label_defs)

text \<open>
  Claim C2, amended: \<^verbatim>\<open>canonGroup\<close> maps \<^verbatim>\<open>null\<close>, the empty string and every string of white space
  to the fixed label \<open>OTHER\<close> (U+AE30 U+D0C0); a label whose normalized form without white
  space is one of the seven aliases to the merged label \<open>target\<close>; every other label to
  its normalized form, white space kept; and each of the seven aliases itself to
  \<open>target\<close>.
\<close>

theorem canonGroup_cases:
  "canonGroup nfkc None = OTHER
   \<and> (\<forall>r. (\<forall>c \<in> set r. isSpace c) \<longrightarrow> canonGroup nfkc (Some r) = OTHER)
   \<and> (\<forall>r. \<not> (\<forall>c \<in> set r. isSpace c) \<and> removeSpaces (normalizeGroup nfkc (trim r)) \<in> set aliases
          \<longrightarrow> canonGroup nfkc (Some r) = target)
   \<and> (\<forall>r. \<not> (\<forall>c \<in> set r. isSpace c) \<and> removeSpaces (normalizeGroup nfkc (trim r)) \<notin> set aliases
          \<longrightarrow> canonGroup nfkc (Some r) = normalizeGroup nfkc (trim r))
   \<and> (\<forall>a \<in> set aliases. canonGroup nfkcTable (Some a) = target)"
proof (intro conjI allI impI)
  show "canonGroup nfkc None = OTHER" by (simp add: canonGroup_def)
next
  fix r assume "\<forall>c \<in> set r. isSpace c"
  then have "trim r = []" by (simp add: trim_empty_iff)
  then show "canonGroup nfkc (Some r) = OTHER" by (simp add: canonGroup_def)
next
  fix r
  assume h: "\<not> (\<forall>c \<in> set r. isSpace c) \<and> removeSpaces (normalizeGroup nfkc (trim r)) \<in> set aliases"
  then have "trim r \<noteq> []" by (simp add: trim_empty_iff)
  with h show "canonGroup nfkc (Some r) = target"
    by (auto simp: canonGroup_def Let_def aliases_def)
next
  fix r
  assume h: "\<not> (\<forall>c \<in> set r. isSpace c) \<and> removeSpaces (normalizeGroup nfkc (trim r)) \<notin> set aliases"
  then have "trim r \<noteq> []" by (simp add: trim_empty_iff)
  with h show "canonGroup nfkc (Some r) = normalizeGroup nfkc (trim r)"
    by (auto simp: canonGroup_def Let_def aliases_def)
next
  show "\<forall>a \<in> set aliases. canonGroup nfkcTable (Some a) = target"
    by (simp add: group_defs string_defs label_defs)
qed

text \<open>
  The cases at concrete labels under \<open>nfkcTable\<close>: white space only; the label
  " U+AE30 U+C220 U+00B7 U+AC00 U+C815 U+FF0F U+C815 U+BCF4" with spaces around the
  separators; the label " a  b / c ", which keeps its inner spaces; one alias.
\<close>

theorem canonGroup_cases_witness:
  "canonGroup nfkcTable (Some (asc '' '' @ [0x3000, 0x09])) = OTHER
   \<and> canonGroup nfkcTable (Some ([0x20, 0xAE30, 0xC220, 0x20, 0xB7, 0x20, 0xAC00, 0xC815, 0x20, 0xFF0F, 0xC815, 0x20, 0xBCF4])) = target
   \<and> canonGroup nfkcTable (Some (asc '' a  b / c '')) = asc ''a  b/c''
   \<and> removeSpaces (asc ''a  b/c'') = asc ''ab/c''
   \<and> canonGroup nfkcTable (Some TECH_HOME_INFO) = target"
proof -
  let ?ws = "asc '' '' @ [0x3000, 0x09]"
  let ?al = "[0x20, 0xAE30, 0xC220, 0x20, 0xB7, 0x20, 0xAC00, 0xC815, 0x20, 0xFF0F, 0xC815, 0x20, 0xBCF4] :: ustring"
  let ?ot = "asc '' a  b / c ''"
  note c = canonGroup_cases [of nfkcTable]
  have ws: "\<forall>c \<in> set ?ws. isSpace c" by (simp add: isSpace_def)
  have al: "\<not> (\<forall>c \<in> set ?al. isSpace c) \<and> removeSpaces (normalizeGroup nfkcTable (trim ?al)) \<in> set aliases"
    by (simp add: group_defs string_defs label_defs)
  have ot: "\<not> (\<forall>c \<in> set ?ot. isSpace c) \<and> removeSpaces (normalizeGroup nfkcTable (trim ?ot)) \<notin> set aliases"
    by (simp add: group_defs string_defs label_defs)
  have ot2: "normalizeGroup nfkcTable (trim ?ot) = asc ''a  b/c''"
    by (simp add: group_defs string_defs label_defs)
  have mem: "TECH_HOME_INFO \<in> set aliases" by (simp add: aliases_def)
  from c ws have 1: "canonGroup nfkcTable (Some ?ws) = OTHER" by blast
  from c al have 2: "canonGroup nfkcTable (Some ?al) = target" by blast
  from c ot have "canonGroup nfkcTable (Some ?ot) = normalizeGroup nfkcTable (trim ?ot)" by blast
  with ot2 have 3: "canonGroup nfkcTable (Some ?ot) = asc ''a  b/c''" by simp
  have 4: "removeSpaces (asc ''a  b/c'') = asc ''ab/c''" by (simp add: string_defs)
  from c mem have 5: "canonGroup nfkcTable (Some TECH_HOME_INFO) = target" by blast
  from 1 2 3 4 5 show ?thesis by blast
qed

section \<open>Hierarchy levels\<close>

text \<open>
  Claim C1, that \<^verbatim>\<open>parseHierLevel\<close> recognizes the levels 1 to 10 in both alphabets and takes
  the text before the numeral as the base. The table maps V to 5, but the pattern has no
  alternative V, and NFKC turns U+2164 into V: level 5 is never recognized, in either
  alphabet. The pattern also takes the letters s before a numeral into the numeral, so
  that the name PhysicsI has the numeral sI, which the table does not have.
\<close>

theorem parseHierLevel_five_absent:
  "parseHierLevel nfkcTable (Some (PHYSICS @ asc ''V'')) = None
   \<and> parseHierLevel nfkcTable (Some (PHYSICS @ [0x2164])) = None
   \<and> map_of romanMap (asc ''V'') = Some 5
   \<and> parseHierLevel nfkcTable (Some (asc ''PhysicsI'')) = None"
  by (simp add: hier_defs string_defs)

text \<open>The three examples of the claim hold, and so does the guard on an absent name.\<close>

lemma parseHierLevel_examples:
  "parseHierLevel nfkcTable (Some (PHYSICS @ [0x2160])) = Some \<lparr>base = PHYSICS, level = 1\<rparr>"
  "parseHierLevel nfkcTable (Some (PHYSICS @ asc ''VIII'')) = Some \<lparr>base = PHYSICS, level = 8\<rparr>"
  "parseHierLevel nfkcTable (Some PHYSICS) = None"
  "parseHierLevel nfkc None = None"
  "parseHierLevel nfkc (Some []) = None"
  by (simp_all add: hier_defs string_defs)

subsection \<open>The longest match and level 5\<close>

text \<open>
  The lazy group stops at or before every position at which the rest matches, and a
  trim keeps a suffix without white space.
\<close>

lemma lazyPrefix_before:
  "lazyPrefix acc (p @ t) = Some m \<Longrightarrow> matchTail t
    \<Longrightarrow> \<exists>k \<le> length p. m = acc @ take k p \<and> matchTail (drop k p @ t)"
proof (induction p arbitrary: acc)
  case Nil
  then have "m = acc" by (cases t) simp_all
  with Nil show ?case by simp
next
  case (Cons c p)
  show ?case
  proof (cases "matchTail (c # p @ t)")
    case True
    with Cons.prems have "m = acc" by simp
    with True show ?thesis by (intro exI [of _ 0]) simp
  next
    case False
    with Cons.prems have "lazyPrefix (acc @ [c]) (p @ t) = Some m"
      by (simp split: if_splits)
    from Cons.IH [OF this Cons.prems(2)]
    obtain k where k: "k \<le> length p" "m = (acc @ [c]) @ take k p" "matchTail (drop k p @ t)" by blast
    then show ?thesis by (intro exI [of _ "Suc k"]) simp
  qed
qed

lemma trim_keeps_suffix:
  assumes "y \<noteq> []" "\<forall>c \<in> set y. \<not> isSpace c"
  shows "trim (x @ y) = dropWhile isSpace x @ y"
proof -
  have 1: "dropWhile isSpace (x @ y) = dropWhile isSpace x @ y"
  proof (cases "\<forall>c \<in> set x. isSpace c")
    case True
    then have "dropWhile isSpace x = []" by simp
    moreover have "dropWhile isSpace y = y" using assms by (cases y) simp_all
    ultimately show ?thesis using True by (simp add: dropWhile_append)
  next
    case False
    then show ?thesis by (auto simp: dropWhile_append)
  qed
  have "rev y \<noteq> []" "\<not> isSpace (hd (rev y))" using assms by (simp_all add: hd_rev)
  then have "dropWhile isSpace (rev y @ rev (dropWhile isSpace x)) = rev y @ rev (dropWhile isSpace x)"
    by (cases "rev y") simp_all
  then show ?thesis unfolding trim_def 1 by simp
qed

lemma romanMap_VIII:
  "map_of romanMap z = Some lv \<Longrightarrow> take 4 (rev z) = [73, 73, 73, 86] \<Longrightarrow> lv = 8"
  by (auto simp: romanMap_def split: if_splits)

text \<open>
  A name whose normalized form ends in VIII is parsed as level 8 or not at all, never
  as level 1, 2 or 3, whatever NFKC is.
\<close>

lemma parseHierLevel_VIII:
  assumes s: "nfkc (trim n) = b @ asc ''VIII''" and p: "parseHierLevel nfkc (Some n) = Some h"
  shows "level h = 8"
proof -
  let ?s = "b @ asc ''VIII''"
  from p s obtain m1 where m1: "lazyPrefix [] ?s = Some m1"
    and lv: "map_of romanMap (trim (drop (length m1) ?s)) = Some (level h)"
    by (auto simp: parseHierLevel_def Let_def split: if_splits option.splits)
  have "matchTail (asc ''VIII'')" by (simp add: numeralHere_def asciiRoman_def)
  with m1 obtain k where k: "k \<le> length b" "m1 = take k b" by (auto dest: lazyPrefix_before)
  then have "drop (length m1) ?s = drop k b @ asc ''VIII''" by simp
  moreover have "trim (drop k b @ asc ''VIII'') = dropWhile isSpace (drop k b) @ asc ''VIII''"
    by (rule trim_keeps_suffix) (simp_all add: isSpace_def)
  ultimately have "trim (drop (length m1) ?s) = dropWhile isSpace (drop k b) @ asc ''VIII''" by simp
  then have "take 4 (rev (trim (drop (length m1) ?s))) = [73, 73, 73, 86]" by simp
  with lv show ?thesis by (rule romanMap_VIII)
qed


text \<open>
  Level 5 is recognized only when the normalized name holds U+2164, which NFKC replaces
  by the letter V: under \<open>nfkcTable\<close> no name has level 5.
\<close>

lemma lazyPrefix_sound:
  "lazyPrefix acc s = Some m \<Longrightarrow> \<exists>k \<le> length s. m = acc @ take k s \<and> matchTail (drop k s)"
proof (induction s arbitrary: acc)
  case Nil
  then show ?case by (simp split: if_splits)
next
  case (Cons c s)
  show ?case
  proof (cases "matchTail (c # s)")
    case True
    with Cons.prems have "m = acc" by simp
    with True show ?thesis by (intro exI [of _ 0]) simp
  next
    case False
    with Cons.prems have "lazyPrefix (acc @ [c]) s = Some m" by (simp split: if_splits)
    from Cons.IH [OF this]
    obtain k where "k \<le> length s" "m = (acc @ [c]) @ take k s" "matchTail (drop k s)" by blast
    then show ?thesis by (intro exI [of _ "Suc k"]) simp
  qed
qed

lemma numeralHere_no_space: "numeralHere r \<Longrightarrow> r \<noteq> [] \<and> (\<forall>c \<in> set r. \<not> isSpace c)"
  by (auto simp: numeralHere_def unicodeRoman_def asciiRoman_def isSpace_def split: list.splits)

lemma matchTail_no_space: "matchTail r \<Longrightarrow> r \<noteq> [] \<and> (\<forall>c \<in> set r. \<not> isSpace c)"
proof (induction r)
  case Nil
  then show ?case using numeralHere_no_space [of "[]"] by simp
next
  case (Cons c r)
  from Cons.prems have "numeralHere (c # r) \<or> (c = of_char CHR ''s'' \<and> matchTail r)" by simp
  then show ?case
  proof
    assume "numeralHere (c # r)"
    then show ?thesis by (rule numeralHere_no_space)
  next
    assume "c = of_char CHR ''s'' \<and> matchTail r"
    then show ?thesis using Cons.IH by (simp add: isSpace_def)
  qed
qed

lemma matchTail_trim: "matchTail r \<Longrightarrow> trim r = r"
  using trim_keeps_suffix [of r "[]"] matchTail_no_space [of r] by simp

lemma parseHierLevel_five:
  assumes p: "parseHierLevel nfkc (Some n) = Some h" and five: "level h = 5"
  shows "0x2164 \<in> set (nfkc (trim n))"
proof -
  let ?s = "nfkc (trim n)"
  from p obtain m1 where m1: "lazyPrefix [] ?s = Some m1"
    and lv: "map_of romanMap (trim (drop (length m1) ?s)) = Some (level h)"
    by (auto simp: parseHierLevel_def Let_def split: if_splits option.splits)
  from m1 obtain k where k: "k \<le> length ?s" "m1 = take k ?s" "matchTail (drop k ?s)"
    by (auto dest: lazyPrefix_sound)
  then have d: "drop (length m1) ?s = drop k ?s" by simp
  with k(3) lv five have "map_of romanMap (drop k ?s) = Some 5" by (simp add: matchTail_trim)
  then have "drop k ?s = asc ''V'' \<or> drop k ?s = [0x2164]"
    by (auto simp: romanMap_def split: if_splits)
  moreover have "\<not> matchTail (asc ''V'')" by (simp add: numeralHere_def unicodeRoman_def asciiRoman_def)
  ultimately have "drop k ?s = [0x2164]" using k(3) by auto
  then have "0x2164 \<in> set (drop k ?s)" by simp
  then show ?thesis by (rule in_set_dropD)
qed

lemma nfkcTable_no_roman_five: "0x2164 \<notin> set (nfkcTable s)"
proof -
  have "0x2164 \<notin> set (nfkcChar c)" for c
    unfolding nfkcChar_def by (simp split: if_splits) linarith
  then show ?thesis by (simp add: nfkcTable_def)
qed

lemma parseHierLevel_never_five: "parseHierLevel nfkcTable name = Some h \<Longrightarrow> level h \<noteq> 5"
proof
  assume p: "parseHierLevel nfkcTable name = Some h" and five: "level h = 5"
  from p obtain n where "name = Some n" by (cases name) (simp_all add: parseHierLevel_def)
  with p five have "0x2164 \<in> set (nfkcTable (trim n))" by (blast dest: parseHierLevel_five)
  then show False using nfkcTable_no_roman_five by blast
qed

section \<open>Credit sums and the ratio\<close>

lemmas check_defs = buildChecks_def seqViolations_def levelsByBase_def explicitViolations_def haveNames_def
  normCourseName_def checkText_def RATIO_EXCEEDED_def List.map_filter_def
lemmas sum_defs = total_def baseOnly_def khOnly_def pct_def mathRound_def foundation_def isKoreanHistory_def
  KOREAN_HISTORY_def item_def KOREAN_LANGUAGE_def toItem_def

text \<open>The floor of a quotient of two numerals is their integer quotient.\<close>

lemma floor_rat_numeral: "\<lfloor>(numeral a :: rat) / numeral b\<rfloor> = numeral a div numeral b"
  using floor_divide_of_int_eq [of "numeral a" "numeral b", where ?'a = rat] by simp



section \<open>The ratio in binary64 arithmetic\<close>

text \<open>Powers of two with integer exponents.\<close>

lemma powi_two_add: "(2::rat) powi (m + n) = 2 powi m * 2 powi n"
  by (simp add: power_int_add)

lemma powi_two_add1: "(2::rat) powi (k + 1) = 2 powi k * 2"
  by (simp add: power_int_add)

text \<open>
  \<open>expo\<close> is the binary exponent: a positive \<open>x\<close> is at least \<open>2 powi expo x\<close> and less
  than the next power of two.
\<close>

lemma expoGe_bounds: "1 \<le> x \<Longrightarrow> 2 powi expoGe x \<le> x \<and> x < 2 powi (expoGe x + 1)"
proof (induction x rule: expoGe.induct)
  case (1 x)
  show ?case
  proof (cases "2 \<le> x")
    case True
    then have "1 \<le> x / 2" by simp
    with 1 True have ih: "2 powi expoGe (x / 2) \<le> x / 2 \<and> x / 2 < 2 powi (expoGe (x / 2) + 1)"
      by blast
    have e: "expoGe x = expoGe (x / 2) + 1" using True by (subst expoGe.simps) simp
    from ih show ?thesis
      unfolding e powi_two_add1 [of "expoGe (x / 2) + 1"] powi_two_add1 [of "expoGe (x / 2)"]
      by linarith
  next
    case False
    then have e: "expoGe x = 0" by (subst expoGe.simps) simp
    from False 1(2) show ?thesis unfolding e by simp
  qed
qed

lemma expoLt_bounds:
  "0 < x \<Longrightarrow> x < 1 \<Longrightarrow> 2 powi expoLt x \<le> x \<and> x < 2 powi (expoLt x + 1)"
proof (induction x rule: expoLt.induct)
  case (1 x)
  define d where "d = expoLt (2 * x) - 1"
  then have d: "expoLt (2 * x) = d + 1" by simp
  from 1(2,3) have e: "expoLt x = d" unfolding d_def by (subst expoLt.simps) simp
  show ?case
  proof (cases "2 * x < 1")
    case True
    with 1 have "2 powi expoLt (2 * x) \<le> 2 * x \<and> 2 * x < 2 powi (expoLt (2 * x) + 1)"
      by simp
    then show ?thesis
      unfolding e d powi_two_add1 [of "d + 1"] powi_two_add1 [of d] by linarith
  next
    case False
    then have "expoLt (2 * x) = 0" by (subst expoLt.simps) simp
    then have e': "expoLt x = - 1" using e d by simp
    from False 1(3) show ?thesis unfolding e' by (simp add: power_int_minus)
  qed
qed

lemma expo_bounds: "0 < x \<Longrightarrow> 2 powi expo x \<le> x \<and> x < 2 powi (expo x + 1)"
  using expoGe_bounds [of x] expoLt_bounds [of x] by (cases "1 \<le> x") (simp_all add: expo_def)

text \<open>The nearest integer is within a half of its argument.\<close>

lemma roundHalfEven_near: "\<bar>of_int (roundHalfEven y) - y\<bar> \<le> 1 / 2"
proof -
  have "of_int \<lfloor>y\<rfloor> \<le> y" "y < of_int \<lfloor>y\<rfloor> + 1" by linarith+
  then show ?thesis unfolding roundHalfEven_def Let_def by (auto split: if_splits)
qed

text \<open>
  The error of one rounding: at most the fraction \<open>2 powi (- 53)\<close> of the exact value, or
  \<open>2 powi (- 1075)\<close> below the normal range. A value of magnitude up to \<open>2 powi 1023\<close>
  rounds to a finite number.
\<close>

lemma fl_nearest:
  "x \<noteq> 0 \<Longrightarrow>
   fl x = (if 2 powi 1024 \<le> nearest \<bar>x\<bar> then (if 0 < x then PosInf else NegInf)
           else Fin (if 0 < x then nearest \<bar>x\<bar> else - nearest \<bar>x\<bar>))"
  by (simp add: fl_def Let_def)

lemma nearest_error:
  assumes a: "0 < a"
  shows "\<bar>nearest a - a\<bar> \<le> a * 2 powi (- 53) + 2 powi (- 1075)"
proof -
  define q where "q = max (expo a) (- 1022) - 52"
  define P :: rat where "P = 2 powi q"
  define m where "m = roundHalfEven (a / P)"
  have n: "nearest a = of_int m * P" by (simp add: nearest_def q_def P_def m_def Let_def)
  have P: "0 < P" unfolding P_def by simp
  have "\<bar>of_int m - a / P\<bar> \<le> 1 / 2" unfolding m_def by (rule roundHalfEven_near)
  then have "\<bar>of_int m - a / P\<bar> * P \<le> 1 / 2 * P" using P by (simp only: mult_le_cancel_right_pos)
  moreover have "\<bar>of_int m - a / P\<bar> * P = \<bar>of_int m * P - a\<bar>"
  proof -
    have "\<bar>of_int m - a / P\<bar> * P = \<bar>(of_int m - a / P) * P\<bar>" using P by (simp add: abs_mult)
    also have "(of_int m - a / P) * P = of_int m * P - a" using P by (simp add: field_simps)
    finally show ?thesis .
  qed
  ultimately have h: "\<bar>nearest a - a\<bar> \<le> P / 2" unfolding n by simp
  have b: "2 powi expo a \<le> a" using expo_bounds [OF a] by simp
  show ?thesis
  proof (cases "- 1022 \<le> expo a")
    case True
    then have "q = expo a + (- 52)" unfolding q_def by simp
    then have "P = 2 powi expo a * 2 powi (- 52)" unfolding P_def by (simp only: powi_two_add)
    then have "P / 2 = 2 powi expo a * 2 powi (- 53)" by (simp add: power_int_minus)
    also have "\<dots> \<le> a * 2 powi (- 53)" using b by (simp add: power_int_minus)
    finally have "P / 2 \<le> a * 2 powi (- 53)" .
    moreover have "(0::rat) \<le> 2 powi (- 1075)" by simp
    ultimately show ?thesis using h by linarith
  next
    case False
    then have "q = - 1074" unfolding q_def by simp
    then have "P / 2 = 2 powi (- 1075)" unfolding P_def by (simp add: power_int_minus)
    moreover have "0 \<le> a * 2 powi (- 53)" using a by simp
    ultimately show ?thesis using h by linarith
  qed
qed

lemma fl_error:
  assumes "fl x = Fin v"
  shows "\<bar>v - x\<bar> \<le> \<bar>x\<bar> * 2 powi (- 53) + 2 powi (- 1075)"
proof (cases "x = 0")
  case True
  with assms show ?thesis by (simp add: fl_def)
next
  case False
  then have a: "0 < \<bar>x\<bar>" by simp
  from assms False have v: "v = (if 0 < x then nearest \<bar>x\<bar> else - nearest \<bar>x\<bar>)"
    by (simp add: fl_nearest split: if_splits)
  have "\<bar>v - x\<bar> = \<bar>nearest \<bar>x\<bar> - \<bar>x\<bar>\<bar>" unfolding v using False by (simp add: abs_if)
  with nearest_error [OF a] show ?thesis by simp
qed

lemma fl_finite:
  assumes "\<bar>x\<bar> \<le> 2 powi 1023"
  shows "\<exists>v. fl x = Fin v"
proof (cases "x = 0")
  case True
  then show ?thesis by (simp add: fl_def)
next
  case False
  then have a: "0 < \<bar>x\<bar>" by simp
  have "nearest \<bar>x\<bar> \<le> \<bar>x\<bar> + (\<bar>x\<bar> * 2 powi (- 53) + 2 powi (- 1075))"
    using nearest_error [OF a] by linarith
  also have "\<dots> \<le> 2 powi 1023 + (2 powi 1023 * 2 powi (- 53) + 2 powi (- 1075))"
    using assms by (intro add_mono mult_right_mono) simp_all
  also have "\<dots> < 2 powi 1024" by (simp add: power_int_minus)
  finally have "\<not> 2 powi 1024 \<le> nearest \<bar>x\<bar>" by simp
  then show ?thesis using False by (simp add: fl_nearest)
qed

text \<open>
  Line 374 on a finite numerator \<open>n\<close> and a positive finite total \<open>t\<close>: the quotient, the
  product with 1000, \<^verbatim>\<open>Math.round\<close> and the quotient by 10. The result is the binary64
  value of \<open>m / 10\<close> for an integer \<open>m\<close>, and the two roundings before \<^verbatim>\<open>Math.round\<close> move
  \<open>m\<close> away from \<open>1000 n / t\<close> by little more than the half of exact arithmetic.
\<close>

lemma ratio_bound:
  assumes t: "0 < t" and r: "\<bar>n / t\<bar> \<le> 2 powi 1000"
  shows "\<exists>m. divN (roundN (mulN (divN (Fin n) (Fin t)) (Fin 1000))) (Fin 10) = fl (of_int m / 10)
           \<and> \<bar>of_int m - 1000 * (n / t)\<bar> \<le> 1 / 2 + \<bar>n / t\<bar> * 2 powi (- 42) + 2 powi (- 1064)"
proof -
  define E :: rat where "E = 2 powi (- 1075)"
  define A where "A = \<bar>n / t\<bar>"
  have E: "0 < E" unfolding E_def by simp
  have E': "(2::rat) powi (- 1064) = 2048 * E"
    unfolding E_def using powi_two_add [of 11 "- 1075"] by simp
  have A: "0 \<le> A" unfolding A_def by simp
  have big: "(2::rat) powi 1000 * 4096 \<le> 2 powi 1023"
    using powi_two_add [of 1000 23] by simp
  have pos: "(0::rat) < 2 powi 1000" by simp
  have "\<bar>n / t\<bar> \<le> 2 powi 1023" using r big pos by linarith
  then obtain r1 where r1: "fl (n / t) = Fin r1" using fl_finite by blast
  have e1: "\<bar>r1 - n / t\<bar> \<le> A * (1 / 9007199254740992) + E"
    using fl_error [OF r1] unfolding A_def E_def by (simp add: power_int_minus)
  define A1 where "A1 = \<bar>r1\<bar>"
  have a1: "A1 \<le> A + A * (1 / 9007199254740992) + E" using e1 unfolding A1_def A_def by linarith
  have "E \<le> 1" unfolding E_def by (simp add: power_int_minus)
  have "\<bar>r1 * 1000\<bar> = A1 * 1000" unfolding A1_def by (simp add: abs_mult)
  moreover have "A1 * 1000 \<le> 2 powi 1023"
  proof -
    have "A \<le> 2 powi 1000" using r unfolding A_def .
    with a1 \<open>E \<le> 1\<close> pos have "A1 \<le> 2 powi 1000 * 2 + 1" by linarith
    moreover have "(1::rat) \<le> 2 powi 1000" by simp
    ultimately have "A1 * 1000 \<le> 2 powi 1000 * 4096" using pos by linarith
    with big show ?thesis by linarith
  qed
  ultimately have "\<bar>r1 * 1000\<bar> \<le> 2 powi 1023" by simp
  then obtain p1 where p1: "fl (r1 * 1000) = Fin p1" using fl_finite by blast
  have e2: "\<bar>p1 - r1 * 1000\<bar> \<le> A1 * 1000 * (1 / 9007199254740992) + E"
    using fl_error [OF p1] unfolding A1_def E_def by (simp add: power_int_minus abs_mult)
  define m where "m = \<lfloor>p1 + 1 / 2\<rfloor>"
  have e3: "\<bar>of_int m - p1\<bar> \<le> 1 / 2" unfolding m_def by linarith
  have v: "divN (roundN (mulN (divN (Fin n) (Fin t)) (Fin 1000))) (Fin 10) = fl (of_int m / 10)"
    using t by (simp add: r1 p1 m_def)
  define R where "R = n / t"
  define M :: rat where "M = of_int m"
  have f1: "r1 - R \<le> A * (1 / 9007199254740992) + E" "R - r1 \<le> A * (1 / 9007199254740992) + E"
    using e1 unfolding R_def by linarith+
  have f2: "p1 - r1 * 1000 \<le> A1 * 1000 * (1 / 9007199254740992) + E"
    "r1 * 1000 - p1 \<le> A1 * 1000 * (1 / 9007199254740992) + E"
    using e2 by linarith+
  have f3: "M - p1 \<le> 1 / 2" "p1 - M \<le> 1 / 2" using e3 unfolding M_def by linarith+
  have "M - 1000 * R \<le> 1 / 2 + A * (1 / 4398046511104) + 2048 * E"
    and "1000 * R - M \<le> 1 / 2 + A * (1 / 4398046511104) + 2048 * E"
    using f1 f2 f3 a1 A E by linarith+
  then have "\<bar>M - 1000 * R\<bar> \<le> 1 / 2 + A * (1 / 4398046511104) + 2048 * E"
    by (simp only: abs_le_iff) simp
  then have "\<bar>of_int m - 1000 * (n / t)\<bar> \<le> 1 / 2 + \<bar>n / t\<bar> * 2 powi (- 42) + 2 powi (- 1064)"
    unfolding E' A_def M_def R_def by (simp add: power_int_minus)
  with v show ?thesis by blast
qed

text \<open>Evaluation of a rounding of a numeral, and the roundings of some whole numbers.\<close>

lemmas fl_eval = expo_def expoGe.simps expoLt.simps roundHalfEven_def Let_def power_int_minus
  floor_rat_numeral

lemma fl_values:
  "fl 0 = Fin 0" "fl 3 = Fin 3" "fl 47 = Fin 47" "fl 48 = Fin 48" "fl 49 = Fin 49"
  "fl 50 = Fin 50" "fl 51 = Fin 51" "fl 100 = Fin 100"
  unfolding fl_def nearest_def by (simp_all add: fl_eval)





text \<open>
  A whole number of magnitude below \<open>2 ^ 53\<close> is a binary64 value: its rounding is the
  number itself.
\<close>

lemma roundHalfEven_of_int: "roundHalfEven (of_int i) = i"
  by (simp add: roundHalfEven_def Let_def)

lemma fl_of_int:
  assumes k: "\<bar>k\<bar> < 2 ^ 53"
  shows "fl (of_int k) = Fin (of_int k)"
proof (cases "k = 0")
  case True
  then show ?thesis by (simp add: fl_def)
next
  case False
  define a :: rat where "a = of_int \<bar>k\<bar>"
  have a: "1 \<le> a" "a < 2 ^ 53"
  proof -
    from False have "1 \<le> \<bar>k\<bar>" by simp
    then show "1 \<le> a" unfolding a_def by (simp only: of_int_le_iff [symmetric, where ?'a = rat] of_int_1)
    from k have "(of_int \<bar>k\<bar> :: rat) < of_int (2 ^ 53)" by (simp only: of_int_less_iff)
    then show "a < 2 ^ 53" unfolding a_def by simp
  qed
  then have pos: "0 < a" by simp
  define e where "e = expo a"
  have b: "2 powi e \<le> a" "a < 2 powi (e + 1)" using expo_bounds [OF pos] unfolding e_def by simp_all
  have e0: "0 \<le> e"
  proof (rule ccontr)
    assume "\<not> 0 \<le> e"
    then have "e + 1 \<le> 0" by simp
    then have "(2::rat) powi (e + 1) \<le> 2 powi 0" by (intro power_int_increasing) simp_all
    with b(2) a(1) show False by simp
  qed
  have e52: "e \<le> 52"
  proof (rule ccontr)
    assume "\<not> e \<le> 52"
    then have "53 \<le> e" by simp
    then have "(2::rat) powi 53 \<le> 2 powi e" by (intro power_int_increasing) simp_all
    with b(1) a(2) show False by simp
  qed
  define j where "j = nat (52 - e)"
  have q: "max e (- 1022) - 52 = - int j" using e0 e52 unfolding j_def by simp
  have P: "(2::rat) powi (- int j) = 1 / 2 ^ j" by (simp add: power_int_minus_divide)
  have "a / (1 / 2 ^ j) = of_int (\<bar>k\<bar> * 2 ^ j)" unfolding a_def by simp
  then have r: "roundHalfEven (a / (1 / 2 ^ j)) = \<bar>k\<bar> * 2 ^ j" by (simp only: roundHalfEven_of_int)
  have n: "nearest a = a"
    unfolding nearest_def Let_def e_def [symmetric] q P r unfolding a_def by simp
  have "\<not> 2 powi 1024 \<le> a" using a(2) by simp
  moreover have "\<bar>of_int k :: rat\<bar> = a" unfolding a_def by simp
  moreover have "(of_int k :: rat) \<noteq> 0" using False by simp
  ultimately have "fl (of_int k) = Fin (if 0 < (of_int k :: rat) then a else - a)"
    by (simp add: fl_def n)
  also have "(if 0 < (of_int k :: rat) then a else - a) = of_int k" unfolding a_def by simp
  finally show ?thesis .
qed

lemma fl_Nats: "x \<in> \<nat> \<Longrightarrow> x < 2 ^ 53 \<Longrightarrow> fl x = Fin x"
proof -
  assume "x \<in> \<nat>" and b: "x < 2 ^ 53"
  then obtain n where x: "x = of_nat n" by (auto elim: Nats_cases)
  have "(of_int (int n) :: rat) < of_int (2 ^ 53)" using b unfolding x by simp
  then have "int n < 2 ^ 53" by (simp only: of_int_less_iff)
  then have "\<bar>int n\<bar> < 2 ^ 53" by simp
  from fl_of_int [OF this] show ?thesis unfolding x by simp
qed

text \<open>
  The sums of whole-number credits: while the total is below \<open>2 ^ 53\<close> no addition of
  lines 371 to 373 rounds, and the three sums are the exact ones.
\<close>

lemma whole_sums:
  "\<forall>r\<in>set list. itemCredit r \<in> \<nat> \<Longrightarrow> total list < 2 ^ 53 \<Longrightarrow>
   foldl (\<lambda>sum r. addN sum (if P r then creditN r else Fin 0)) (Fin 0) list
     = Fin (foldl (\<lambda>sum r. sum + (if P r then itemCredit r else 0)) 0 list)
   \<and> foldl (\<lambda>sum r. sum + (if P r then itemCredit r else 0)) 0 list \<in> \<nat>
   \<and> foldl (\<lambda>sum r. sum + (if P r then itemCredit r else 0)) 0 list \<le> total list
   \<and> 0 \<le> total list"
proof (induction list rule: rev_induct)
  case Nil
  show ?case by (simp add: total_def)
next
  case (snoc x xs)
  let ?S = "foldl (\<lambda>sum r. sum + (if P r then itemCredit r else 0)) 0 xs"
  from snoc.prems(1) have c: "itemCredit x \<in> \<nat>" and cs: "\<forall>r\<in>set xs. itemCredit r \<in> \<nat>" by simp_all
  from c have c0: "0 \<le> itemCredit x" by (auto elim: Nats_cases)
  have t: "total (xs @ [x]) = total xs + itemCredit x" by (simp add: total_def)
  with snoc.prems(2) c0 have "total xs < 2 ^ 53" by simp
  with snoc.IH cs have ih: "foldl (\<lambda>sum r. addN sum (if P r then creditN r else Fin 0)) (Fin 0) xs = Fin ?S"
    and n: "?S \<in> \<nat>" and le: "?S \<le> total xs" and t0: "0 \<le> total xs" by simp_all
  have cb: "itemCredit x < 2 ^ 53" using snoc.prems(2) t0 unfolding t by simp
  have cr: "creditN x = Fin (itemCredit x)" unfolding creditN_def using c cb by (rule fl_Nats)
  define d where "d = (if P x then itemCredit x else 0)"
  have d: "d \<in> \<nat>" "d \<le> itemCredit x" "(if P x then creditN x else Fin 0) = Fin d"
    using c c0 cr unfolding d_def by simp_all
  have sn: "?S + d \<in> \<nat>" using n d(1) by (rule Nats_add)
  have sb: "?S + d \<le> total (xs @ [x])" unfolding t using le d(2) by simp
  then have "?S + d < 2 ^ 53" using snoc.prems(2) by simp
  with sn have "fl (?S + d) = Fin (?S + d)" by (rule fl_Nats)
  then have "foldl (\<lambda>sum r. addN sum (if P r then creditN r else Fin 0)) (Fin 0) (xs @ [x]) = Fin (?S + d)"
    by (simp add: ih d(3))
  moreover have "foldl (\<lambda>sum r. sum + (if P r then itemCredit r else 0)) 0 (xs @ [x]) = ?S + d"
    by (simp add: d_def)
  moreover have "0 \<le> total (xs @ [x])" unfolding t using t0 c0 by simp
  ultimately show ?case using sn sb by simp
qed

lemma whole_credits_exact:
  assumes "\<forall>r\<in>set list. itemCredit r \<in> \<nat>" and "total list < 2 ^ 53"
  shows "total64 list = Fin (total list)" and "baseOnly64 list = Fin (baseOnly list)"
    and "khOnly64 nfkc list = Fin (khOnly nfkc list)"
    and "total list \<in> \<nat>" and "baseOnly list \<in> \<nat>" and "khOnly nfkc list \<in> \<nat>"
    and "baseOnly list \<le> total list" and "khOnly nfkc list \<le> total list"
proof -
  note t = whole_sums [OF assms, of "\<lambda>r. True"]
  note b = whole_sums [OF assms, of "\<lambda>r. itemGroup r \<in> set foundation"]
  note k = whole_sums [OF assms, of "\<lambda>r. isKoreanHistory nfkc (Some (itemName r))"]
  from t show "total64 list = Fin (total list)" by (simp add: total64_def total_def)
  from t show "total list \<in> \<nat>" by (simp add: total_def)
  from b show "baseOnly64 list = Fin (baseOnly list)" by (simp add: baseOnly64_def baseOnly_def)
  from b show "baseOnly list \<in> \<nat>" by (simp add: baseOnly_def)
  from b show "baseOnly list \<le> total list" by (simp add: baseOnly_def)
  from k show "khOnly64 nfkc list = Fin (khOnly nfkc list)" by (simp add: khOnly64_def khOnly_def)
  from k show "khOnly nfkc list \<in> \<nat>" by (simp add: khOnly_def)
  from k show "khOnly nfkc list \<le> total list" by (simp add: khOnly_def)
qed

text \<open>
  Line 374 on a whole numerator \<open>n\<close> below \<open>2 ^ 40\<close> and a whole total \<open>t\<close>: the exact
  product \<open>1000 n / t\<close> is a half-integer, a tie of \<^verbatim>\<open>Math.round\<close>, or at least \<open>1 / (2 t)\<close>
  away from every half-integer, which is more than the two roundings move it. Without a
  tie \<^verbatim>\<open>Math.round\<close> returns the integer of exact arithmetic.
\<close>

lemma ratio_exact:
  assumes n: "n \<in> \<nat>" and t: "t \<in> \<nat>" and t0: "0 < t" and nb: "n < 2 ^ 40" and tb: "t < 2 ^ 53"
    and tie: "1000 * (n / t) + 1 / 2 \<notin> \<int>"
  shows "divN (roundN (mulN (divN (Fin n) (Fin t)) (Fin 1000))) (Fin 10)
         = fl (of_int \<lfloor>1000 * (n / t) + 1 / 2\<rfloor> / 10)"
proof -
  from n obtain N where N: "n = of_nat N" by (auto elim: Nats_cases)
  from t obtain T where T: "t = of_nat T" by (auto elim: Nats_cases)
  have n0: "0 \<le> n" unfolding N by simp
  have t1: "1 \<le> t" using t0 unfolding T by simp
  define x where "x = 1000 * (n / t)"
  have tx: "t * x = 1000 * n" unfolding x_def using t0 by simp
  have q0: "0 \<le> n / t" using n0 t0 by simp
  have "n * 1 \<le> n * t" using t1 n0 by (rule mult_left_mono)
  then have "n / t \<le> n" using t0 by (simp add: field_simps)
  also have "n \<le> 2 powi 1000" using nb by simp
  finally have r: "\<bar>n / t\<bar> \<le> 2 powi 1000" using q0 by simp
  from ratio_bound [OF t0 r] obtain m where
    v: "divN (roundN (mulN (divN (Fin n) (Fin t)) (Fin 1000))) (Fin 10) = fl (of_int m / 10)"
    and e: "\<bar>of_int m - 1000 * (n / t)\<bar> \<le> 1 / 2 + \<bar>n / t\<bar> * 2 powi (- 42) + 2 powi (- 1064)"
    by blast
  define d :: rat where "d = n / t * (1 / 4398046511104) + 2 powi (- 1064)"
  have aq: "\<bar>n / t\<bar> = n / t" using q0 by (rule abs_of_nonneg)
  have c: "(2::rat) powi (- 42) = 1 / 4398046511104" by (simp add: power_int_minus)
  have e': "of_int m - x \<le> 1 / 2 + d" "x - of_int m \<le> 1 / 2 + d"
    using e unfolding x_def d_def aq c by linarith+
  have "t * d = n * (1 / 4398046511104) + t * 2 powi (- 1064)"
    unfolding d_def using t0 by (simp add: algebra_simps)
  moreover have "n * (1 / 4398046511104) < 1 / 4" using nb by simp
  moreover have "t * 2 powi (- 1064) < 1 / 4"
  proof -
    have "t * 2 powi (- 1064) \<le> 2 ^ 53 * 2 powi (- 1064)" using tb by (intro mult_right_mono) simp_all
    also have "\<dots> < 1 / 4" by (simp add: power_int_minus)
    finally show ?thesis .
  qed
  ultimately have td: "t * d < 1 / 2" by linarith
  define M :: rat where "M = t * of_int m"
  have "t * (of_int m - x) \<le> t * (1 / 2 + d)" "t * (x - of_int m) \<le> t * (1 / 2 + d)"
    using e' t0 by (simp_all only: mult_le_cancel_left_pos)
  then have u: "2 * M - 2000 * n < t + 1" "2000 * n - 2 * M < t + 1"
    using td tx unfolding M_def by (simp_all add: algebra_simps)
  define m0 where "m0 = \<lfloor>x + 1 / 2\<rfloor>"
  have f: "of_int m0 \<le> x + 1 / 2" "x + 1 / 2 < of_int m0 + 1" unfolding m0_def by linarith+
  have "x + 1 / 2 \<noteq> of_int m0" using tie unfolding x_def by (metis Ints_of_int)
  with f(1) have f1: "of_int m0 < x + 1 / 2" by simp
  define M0 :: rat where "M0 = t * of_int m0"
  have "t * of_int m0 < t * (x + 1 / 2)" "t * (x + 1 / 2) < t * (of_int m0 + 1)"
    using f1 f(2) t0 by (simp_all only: mult_less_cancel_left_pos)
  then have w: "2 * M0 < 2000 * n + t" "2000 * n + t < 2 * M0 + 2 * t"
    using tx unfolding M0_def by (simp_all add: algebra_simps)
  have iM: "M = of_int (int T * m)" and iM0: "M0 = of_int (int T * m0)"
    and iN: "n = of_int (int N)" and iT: "t = of_int (int T)"
    unfolding M_def M0_def N T by simp_all
  have "(of_int (2 * (int T * m) - 2000 * int N) :: rat) < of_int (int T + 1)"
    using u(1) unfolding iM iN iT by simp
  then have a1: "2 * (int T * m) - 2000 * int N < int T + 1" by (simp only: of_int_less_iff)
  have "(of_int (2000 * int N - 2 * (int T * m)) :: rat) < of_int (int T + 1)"
    using u(2) unfolding iM iN iT by simp
  then have a2: "2000 * int N - 2 * (int T * m) < int T + 1" by (simp only: of_int_less_iff)
  have "(of_int (2 * (int T * m0)) :: rat) < of_int (2000 * int N + int T)"
    using w(1) unfolding iM0 iN iT by simp
  then have a3: "2 * (int T * m0) < 2000 * int N + int T" by (simp only: of_int_less_iff)
  have "(of_int (2000 * int N + int T) :: rat) < of_int (2 * (int T * m0) + 2 * int T)"
    using w(2) unfolding iM0 iN iT by simp
  then have a4: "2000 * int N + int T < 2 * (int T * m0) + 2 * int T" by (simp only: of_int_less_iff)
  have Tp: "0 < int T" using t0 unfolding T by simp
  from a1 a4 have "int T * m < int T * m0 + int T" by linarith
  then have "int T * m < int T * (m0 + 1)" by (simp add: algebra_simps)
  then have "m < m0 + 1" using Tp by (simp only: mult_less_cancel_left_pos)
  moreover from a2 a3 have "int T * m0 < int T * m + int T" by linarith
  then have "int T * m0 < int T * (m + 1)" by (simp add: algebra_simps)
  then have "m0 < m + 1" using Tp by (simp only: mult_less_cancel_left_pos)
  ultimately have "m = m0" by simp
  with v show ?thesis unfolding m0_def x_def by simp
qed


text \<open>
  For whole-number credits the ratio of the runtime is the binary64 value of the exact
  ratio, ties apart.
\<close>

lemma pct64_whole_credits:
  assumes w: "\<forall>r\<in>set list. itemCredit r \<in> \<nat>" and t0: "0 < total list" and tb: "total list < 2 ^ 39"
    and tie: "1000 * ((baseOnly list + khOnly nfkc list) / total list) + 1 / 2 \<notin> \<int>"
  shows "pct64 nfkc list = fl (pct nfkc list)"
proof -
  from tb have tb': "total list < 2 ^ 53" by simp
  note s = whole_credits_exact [OF w tb']
  define n where "n = baseOnly list + khOnly nfkc list"
  have n: "n \<in> \<nat>" unfolding n_def using s(5,6) by (rule Nats_add)
  have "khOnly nfkc list \<le> total list" by (rule s(8))
  with s(7) tb have nb: "n < 2 ^ 40" unfolding n_def by simp
  then have "n < 2 ^ 53" by simp
  with n have f: "fl n = Fin n" by (rule fl_Nats)
  have "pct64 nfkc list = divN (roundN (mulN (divN (Fin n) (Fin (total list))) (Fin 1000))) (Fin 10)"
    unfolding pct64_def s(1,2,3) using t0 f by (simp add: n_def)
  also have "\<dots> = fl (of_int \<lfloor>1000 * (n / total list) + 1 / 2\<rfloor> / 10)"
    using n s(4) t0 nb tb' tie [folded n_def] by (rule ratio_exact)
  also have "of_int \<lfloor>1000 * (n / total list) + 1 / 2\<rfloor> / 10 = pct nfkc list"
    using t0 by (simp add: pct_def mathRound_def n_def mult.commute)
  finally show ?thesis .
qed

lemmas sum64_defs = total64_def baseOnly64_def khOnly64_def creditN_def foundation_def
  isKoreanHistory_def KOREAN_HISTORY_def item_def KOREAN_LANGUAGE_def MATHEMATICS_def




text \<open>The roundings of the examples that follow.\<close>

lemma fl_examples:
  "fl (1 / 10) = Fin (3602879701896397 / 36028797018963968)"
  "fl (3602879701896397 / 36028797018963968) = Fin (3602879701896397 / 36028797018963968)"
  "fl (1 / 5) = Fin (3602879701896397 / 18014398509481984)"
  "fl (10808639105689191 / 36028797018963968) = Fin (1351079888211149 / 4503599627370496)"
  "fl (1001 / 2000) = Fin (2254051613498933 / 4503599627370496)"
  "fl (201 / 400) = Fin (1131529406376837 / 2251799813685248)"
  "fl (2308094809027379 / 4503599627370496) = Fin (2308094809027379 / 4503599627370496)"
  "fl 2 = Fin 2"
  "fl (39 / 10) = Fin (8782019273372467 / 2251799813685248)"
  "fl (2308094809027379 / 562949953421312) = Fin (2308094809027379 / 562949953421312)"
  "fl (41 / 10) = Fin (2308094809027379 / 562949953421312)"
  "fl 6 = Fin 6"
  "fl (18014398509481983 / 2251799813685248) = Fin 8"
  "fl (251 / 5) = Fin (3532510957718733 / 70368744177664)"
  "fl (256 / 5) = Fin (3602879701896397 / 70368744177664)"
  "fl (513 / 10) = Fin (3609916576314163 / 70368744177664)"
  "fl 199 = Fin 199"
  "fl 200 = Fin 200"
  "fl 201 = Fin 201"
  "fl 400 = Fin 400"
  "fl (281756451687366625 / 562949953421312) = Fin (8804889115230207 / 17592186044416)"
  "fl (141441175797104625 / 281474976710656) = Fin (8840073487319039 / 17592186044416)"
  "fl (288511851128422375 / 562949953421312) = Fin (1025 / 2)"
  "fl 999 = Fin 999"
  "fl 1001 = Fin 1001"
  "fl 2000 = Fin 2000"
  unfolding fl_def nearest_def by (simp_all add: fl_eval)


text \<open>
  Known values of the runtime: \<^verbatim>\<open>0.1 + 0.2\<close> is \<^verbatim>\<open>0.30000000000000004\<close>; 201 of 400 credits give
  \<^verbatim>\<open>50.2\<close> (the product is \<^verbatim>\<open>502.49999999999994\<close>, the exact ratio is 50.3); a Korean-history
  course of 3 credits in a foundation group gives 200. With the credits 4.1 and 3.9 the
  foundation sum is the binary64 value below 4.1 and the total is 8: the exact product of
  these sums is nearer to 512 than to 513, the rounded product is 512.5 and the ratio is
  \<^verbatim>\<open>51.3\<close>, so the tenths can be further than a half from the exact product.
\<close>

lemma binary64_examples:
  "total64 [item (asc ''x'') (asc ''a'') (1 / 10), item (asc ''x'') (asc ''b'') (2 / 10)]
   = Fin (1351079888211149 / 4503599627370496)"
  "pct64 nfkcTable [item MATHEMATICS (asc ''a'') 201, item (asc ''x'') (asc ''b'') 199] = fl (502 / 10)"
  "pct nfkcTable [item MATHEMATICS (asc ''a'') 201, item (asc ''x'') (asc ''b'') 199] = 503 / 10"
  "pct64 nfkcTable [item KOREAN_LANGUAGE KOREAN_HISTORY 3] = Fin 200"
  "total64 [item MATHEMATICS (asc ''a'') (41 / 10), item (asc ''x'') (asc ''b'') (39 / 10)] = Fin 8"
  "baseOnly64 [item MATHEMATICS (asc ''a'') (41 / 10), item (asc ''x'') (asc ''b'') (39 / 10)]
   = Fin (2308094809027379 / 562949953421312)"
  "khOnly64 nfkcTable [item MATHEMATICS (asc ''a'') (41 / 10), item (asc ''x'') (asc ''b'') (39 / 10)]
   = Fin 0"
  "pct64 nfkcTable [item MATHEMATICS (asc ''a'') (41 / 10), item (asc ''x'') (asc ''b'') (39 / 10)]
   = fl (513 / 10)"
  "\<bar>512 - 1000 * ((2308094809027379 / 562949953421312 + 0) / 8) :: rat\<bar> < 1 / 2"
  "fl (513 / 10) \<noteq> fl (512 / 10)"
proof -
  show "total64 [item (asc ''x'') (asc ''a'') (1 / 10), item (asc ''x'') (asc ''b'') (2 / 10)]
   = Fin (1351079888211149 / 4503599627370496)"
    by (simp add: sum64_defs fl_examples)
  let ?l = "[item MATHEMATICS (asc ''a'') 201, item (asc ''x'') (asc ''b'') 199]"
  have "total64 ?l = Fin 400" "baseOnly64 ?l = Fin 201" "khOnly64 nfkcTable ?l = Fin 0"
    by (simp_all add: sum64_defs string_defs fl_values fl_examples)
  then show "pct64 nfkcTable ?l = fl (502 / 10)"
    unfolding pct64_def by (simp add: fl_values fl_examples floor_rat_numeral)
  have "total ?l = 400" "baseOnly ?l = 201" "khOnly nfkcTable ?l = 0"
    by (simp_all add: sum_defs MATHEMATICS_def string_defs)
  then show "pct nfkcTable ?l = 503 / 10"
    unfolding pct_def by (simp add: mathRound_def floor_rat_numeral)
  let ?k = "[item KOREAN_LANGUAGE KOREAN_HISTORY 3]"
  have "total64 ?k = Fin 3" "baseOnly64 ?k = Fin 3" "khOnly64 nfkcTable ?k = Fin 3"
    by (simp_all add: sum64_defs string_defs fl_values fl_examples)
  then show "pct64 nfkcTable ?k = Fin 200"
    unfolding pct64_def by (simp add: fl_values fl_examples floor_rat_numeral)
  let ?d = "[item MATHEMATICS (asc ''a'') (41 / 10), item (asc ''x'') (asc ''b'') (39 / 10)]"
  show td: "total64 ?d = Fin 8"
    and bd: "baseOnly64 ?d = Fin (2308094809027379 / 562949953421312)"
    and kd: "khOnly64 nfkcTable ?d = Fin 0"
    by (simp_all add: sum64_defs string_defs fl_values fl_examples)
  show "pct64 nfkcTable ?d = fl (513 / 10)"
    unfolding pct64_def td bd kd by (simp add: fl_values fl_examples floor_rat_numeral)
  show "\<bar>512 - 1000 * ((2308094809027379 / 562949953421312 + 0) / 8) :: rat\<bar> < 1 / 2" by simp
  show "fl (513 / 10) \<noteq> fl (512 / 10)" by (simp add: fl_examples)
qed

text \<open>
  A course with a Korean-history name in a foundation group, alone, with a whole-number
  credit: the ratio of the runtime is 200, as the exact one.
\<close>

lemma korean_history_twice_binary64:
  assumes h: "isKoreanHistory nfkc (Some (itemName r))" and f: "itemGroup r \<in> set foundation"
    and c: "itemCredit r \<in> \<nat>" "0 < itemCredit r" "itemCredit r < 2 ^ 39"
  shows "pct64 nfkc [r] = Fin 200"
proof -
  have t: "total [r] = itemCredit r" and b: "baseOnly [r] = itemCredit r"
    and k: "khOnly nfkc [r] = itemCredit r"
    using h f by (simp_all add: total_def baseOnly_def khOnly_def)
  have p: "pct nfkc [r] = 200"
    using c(2) by (simp add: pct_def t b k mathRound_def floor_rat_numeral)
  have "(4001 / 2 :: rat) \<notin> \<int>"
    using of_int_floor_cancel [of "4001 / 2 :: rat"] by (simp add: floor_rat_numeral)
  then have "1000 * ((baseOnly [r] + khOnly nfkc [r]) / total [r]) + 1 / 2 \<notin> \<int>"
    unfolding t b k using c(2) by simp
  moreover have "\<forall>x\<in>set [r]. itemCredit x \<in> \<nat>" using c(1) by simp
  moreover have "0 < total [r]" "total [r] < 2 ^ 39" unfolding t using c by simp_all
  ultimately have "pct64 nfkc [r] = fl (pct nfkc [r])" by (intro pct64_whole_credits)
  then show ?thesis unfolding p by (simp add: fl_examples)
qed

section \<open>The sequence check\<close>

text \<open>
  \<^verbatim>\<open>byBase\<close> has every base once, with a set of levels that is not empty and holds
  exactly the levels attained for the base.
\<close>

lemma levelsByBase_fold: "levelsByBase nfkc list = fold (levelStep nfkc) list []"
  by (simp add: levelsByBase_def levelStep_def [abs_def])

lemma addLevel_distinct: "distinct (map fst m) \<Longrightarrow> distinct (map fst (addLevel ph m))"
  by (simp add: addLevel_def Let_def distinct_update)

lemma addLevel_nonempty:
  assumes "\<forall>b s. map_of m b = Some s \<longrightarrow> s \<noteq> []"
  shows "\<forall>b s. map_of (addLevel ph m) b = Some s \<longrightarrow> s \<noteq> []"
  using assms by (auto simp: addLevel_def Let_def update_conv' split: option.splits if_splits)

lemma addLevel_levelSet:
  "levelSet (addLevel ph m) b = levelSet m b \<union> (if base ph = b then {level ph} else {})"
  by (auto simp: levelSet_def addLevel_def Let_def update_conv' split: option.splits)

lemma HierLevel_eq: "ph = \<lparr>base = b, level = lv\<rparr> \<longleftrightarrow> base ph = b \<and> level ph = lv"
  by (cases ph) auto

lemma attained_Cons:
  "attained nfkc (r # list) b =
     (case parseHierLevel nfkc (Some (itemName r)) of
        None \<Rightarrow> {} | Some ph \<Rightarrow> if base ph = b then {level ph} else {})
     \<union> attained nfkc list b"
  by (auto simp: attained_def HierLevel_eq split: option.splits)

lemma levelStep_levelSet:
  "levelSet (levelStep nfkc r m) b = levelSet m b \<union> attained nfkc [r] b"
  by (auto simp: levelStep_def addLevel_levelSet attained_def HierLevel_eq split: option.splits)

lemma fold_levelStep:
  "levelSet (fold (levelStep nfkc) list m) b = levelSet m b \<union> attained nfkc list b"
proof (induction list arbitrary: m)
  case Nil
  show ?case by (simp add: attained_def)
next
  case (Cons r list)
  have "attained nfkc (r # list) b = attained nfkc [r] b \<union> attained nfkc list b"
    by (auto simp: attained_def)
  then show ?case by (simp add: Cons.IH levelStep_levelSet Un_assoc)
qed

lemma fold_levelStep_distinct:
  "distinct (map fst m) \<Longrightarrow> distinct (map fst (fold (levelStep nfkc) list m))"
  by (induction list arbitrary: m) (simp_all add: levelStep_def addLevel_distinct split: option.splits)

lemma fold_levelStep_nonempty:
  "\<forall>b s. map_of m b = Some s \<longrightarrow> s \<noteq> []
    \<Longrightarrow> \<forall>b s. map_of (fold (levelStep nfkc) list m) b = Some s \<longrightarrow> s \<noteq> []"
proof (induction list arbitrary: m)
  case Nil
  then show ?case by simp
next
  case (Cons r list)
  have "\<forall>b s. map_of (levelStep nfkc r m) b = Some s \<longrightarrow> s \<noteq> []"
    using Cons.prems addLevel_nonempty [of m] by (simp add: levelStep_def split: option.splits)
  then show ?case using Cons.IH by simp
qed

lemma levelsByBase_distinct: "distinct (map fst (levelsByBase nfkc list))"
  by (simp add: levelsByBase_fold fold_levelStep_distinct)

lemma levelsByBase_lookup:
  "(b, s) \<in> set (levelsByBase nfkc list) \<Longrightarrow> s \<noteq> [] \<and> set s = attained nfkc list b"
proof -
  assume mem: "(b, s) \<in> set (levelsByBase nfkc list)"
  then have m: "map_of (levelsByBase nfkc list) b = Some s"
    using levelsByBase_distinct by simp
  have ne: "s \<noteq> []"
    using fold_levelStep_nonempty [of "[]" nfkc list] m by (simp add: levelsByBase_fold)
  have "levelSet (levelsByBase nfkc list) b = attained nfkc list b"
    using fold_levelStep [of nfkc list "[]" b] by (simp add: levelsByBase_fold levelSet_def)
  with m have "set s = attained nfkc list b" by (simp add: levelSet_def)
  with ne show ?thesis by simp
qed

lemma levelsByBase_present:
  "attained nfkc list b \<noteq> {} \<Longrightarrow> \<exists>s. (b, s) \<in> set (levelsByBase nfkc list)"
proof -
  assume ne: "attained nfkc list b \<noteq> {}"
  have "levelSet (levelsByBase nfkc list) b = attained nfkc list b"
    using fold_levelStep [of nfkc list "[]" b] by (simp add: levelsByBase_fold levelSet_def)
  with ne obtain s where "map_of (levelsByBase nfkc list) b = Some s"
    by (auto simp: levelSet_def split: option.splits)
  then show ?thesis by (blast dest: map_of_SomeD)
qed

text \<open>The maximum of line 335 and the loop of line 337.\<close>

lemma maxLevel_Max: "s \<noteq> [] \<Longrightarrow> maxLevel s = Max (set s)"
proof (induction s)
  case Nil
  then show ?case by simp
next
  case (Cons x s)
  show ?case
  proof (cases "s = []")
    case True
    then show ?thesis by (simp add: maxLevel_def)
  next
    case False
    with Cons.IH have "maxLevel s = Max (set s)" by simp
    then show ?thesis using False by (simp add: maxLevel_def)
  qed
qed

lemma missingLevels_set:
  "s \<noteq> [] \<Longrightarrow> missingLevels s = filter (\<lambda>i. i \<notin> set s) [1..<Max (set s)]"
  by (simp add: missingLevels_def maxLevel_Max)

text \<open>
  Claim C3, amended: the sequence check groups the parseable courses by base name and
  has at most one finding for a base; a base \<open>b\<close> is reported with the list \<open>m\<close> exactly
  when levels are attained for \<open>b\<close>, \<open>m\<close> is not empty and \<open>m\<close> lists, in ascending
  order, the integers from 1 to \<open>M - 1\<close> that are not attained, \<open>M\<close> being the maximum
  attained level; a base whose attained levels have no gap below \<open>M\<close> has no finding.
  So the levels 1 and 3 give exactly the missing list 2, and the levels 1, 2, 3, or the
  level 1 alone, give no finding. The statement holds for \<^verbatim>\<open>buildChecks\<close> (lines 322 to
  339) and for \<^verbatim>\<open>seq\<close> (lines 499 to 517), whose findings are the same.
\<close>

theorem seqViolations_missing:
  "distinct (map fst (seqViolations nfkc list))
   \<and> (\<forall>b m. (b, m) \<in> set (seqViolations nfkc list) \<longleftrightarrow>
          attained nfkc list b \<noteq> {} \<and> m \<noteq> []
          \<and> m = filter (\<lambda>i. i \<notin> attained nfkc list b) [1..<Max (attained nfkc list b)])
   \<and> (\<forall>b. (\<forall>i. 1 \<le> i \<and> i < Max (attained nfkc list b) \<longrightarrow> i \<in> attained nfkc list b)
          \<longrightarrow> b \<notin> fst ` set (seqViolations nfkc list))"
proof -
  have d: "distinct (map fst (seqViolations nfkc list))"
  proof -
    have "map fst (seqViolations nfkc list)
          = map fst (filter (\<lambda>e. missingLevels (snd e) \<noteq> []) (levelsByBase nfkc list))"
      by (simp add: seqViolations_def filter_map comp_def)
    then show ?thesis using levelsByBase_distinct [of nfkc list] by (simp add: distinct_map_filter)
  qed
  have iff: "(b, m) \<in> set (seqViolations nfkc list) \<longleftrightarrow>
          attained nfkc list b \<noteq> {} \<and> m \<noteq> []
          \<and> m = filter (\<lambda>i. i \<notin> attained nfkc list b) [1..<Max (attained nfkc list b)]" for b m
  proof
    assume "(b, m) \<in> set (seqViolations nfkc list)"
    then obtain s where s: "(b, s) \<in> set (levelsByBase nfkc list)" and m: "m = missingLevels s" "m \<noteq> []"
      by (auto simp: seqViolations_def)
    from s have "s \<noteq> []" "set s = attained nfkc list b" using levelsByBase_lookup by blast+
    then show "attained nfkc list b \<noteq> {} \<and> m \<noteq> []
          \<and> m = filter (\<lambda>i. i \<notin> attained nfkc list b) [1..<Max (attained nfkc list b)]"
      using m missingLevels_set [of s] by auto
  next
    assume h: "attained nfkc list b \<noteq> {} \<and> m \<noteq> []
          \<and> m = filter (\<lambda>i. i \<notin> attained nfkc list b) [1..<Max (attained nfkc list b)]"
    then obtain s where s: "(b, s) \<in> set (levelsByBase nfkc list)"
      using levelsByBase_present by blast
    then have "s \<noteq> []" "set s = attained nfkc list b" using levelsByBase_lookup by blast+
    then have "missingLevels s = m" using h missingLevels_set [of s] by simp
    with s h show "(b, m) \<in> set (seqViolations nfkc list)"
      by (force simp: seqViolations_def)
  qed
  have nogap: "b \<notin> fst ` set (seqViolations nfkc list)"
    if g: "\<forall>i. 1 \<le> i \<and> i < Max (attained nfkc list b) \<longrightarrow> i \<in> attained nfkc list b" for b
  proof
    assume "b \<in> fst ` set (seqViolations nfkc list)"
    then obtain m where "(b, m) \<in> set (seqViolations nfkc list)" by auto
    with iff have m: "m \<noteq> []" "m = filter (\<lambda>i. i \<notin> attained nfkc list b) [1..<Max (attained nfkc list b)]"
      by blast+
    from g have "filter (\<lambda>i. i \<notin> attained nfkc list b) [1..<Max (attained nfkc list b)] = []"
      by (auto simp: filter_empty_conv)
    with m show False by simp
  qed
  from d iff nogap show ?thesis by blast
qed

text \<open>The findings of the student view are those of the export.\<close>

lemma seq_seqViolations: "map (\<lambda>v. (fst v, snd (snd v))) (seq nfkc list) = seqViolations nfkc list"
  by (simp add: seq_def seqViolations_def filter_map comp_def)


text \<open>
  Claim C3, as stated, says that a base with only one level attained produces no
  finding. A student whose only chemistry course is U+D654 U+D559 U+2161 (level 2) is
  reported with the missing level 1.
\<close>

theorem single_level_reported:
  "seqViolations nfkcTable [item KOREAN_LANGUAGE (CHEMISTRY @ [0x2161]) 2] = [(CHEMISTRY, [1])]"
  by (simp add: seqViolations_def levelsByBase_def addLevel_def missingLevels_def maxLevel_def
      hier_defs string_defs item_def CHEMISTRY_def upt_conv_Cons)

text \<open>
  The levels 1 and 3 of the base U+D654 U+D559 give the missing list 2; the levels 1, 2
  and 3 give no finding; the level 1 alone gives none.
\<close>

theorem seqViolations_missing_witness:
  "attained nfkcTable
     [item KOREAN_LANGUAGE (CHEMISTRY @ [0x2160]) 2, item KOREAN_LANGUAGE (CHEMISTRY @ [0x2162]) 2]
     CHEMISTRY = {1, 3}
   \<and> (CHEMISTRY, [2]) \<in> set (seqViolations nfkcTable
        [item KOREAN_LANGUAGE (CHEMISTRY @ [0x2160]) 2, item KOREAN_LANGUAGE (CHEMISTRY @ [0x2162]) 2])
   \<and> seqViolations nfkcTable
        [item KOREAN_LANGUAGE (CHEMISTRY @ [0x2160]) 2, item KOREAN_LANGUAGE (CHEMISTRY @ [0x2162]) 2]
       = [(CHEMISTRY, [2])]
   \<and> seqViolations nfkcTable
        [item KOREAN_LANGUAGE (CHEMISTRY @ [0x2160]) 2, item KOREAN_LANGUAGE (CHEMISTRY @ [0x2161]) 2,
         item KOREAN_LANGUAGE (CHEMISTRY @ [0x2162]) 2] = []
   \<and> attained nfkcTable [item KOREAN_LANGUAGE (CHEMISTRY @ [0x2160]) 2] CHEMISTRY = {1}
   \<and> CHEMISTRY \<notin> fst ` set (seqViolations nfkcTable [item KOREAN_LANGUAGE (CHEMISTRY @ [0x2160]) 2])"
proof -
  let ?l13 = "[item KOREAN_LANGUAGE (CHEMISTRY @ [0x2160]) 2, item KOREAN_LANGUAGE (CHEMISTRY @ [0x2162]) 2]"
  let ?l123 = "[item KOREAN_LANGUAGE (CHEMISTRY @ [0x2160]) 2, item KOREAN_LANGUAGE (CHEMISTRY @ [0x2161]) 2,
         item KOREAN_LANGUAGE (CHEMISTRY @ [0x2162]) 2]"
  let ?l1 = "[item KOREAN_LANGUAGE (CHEMISTRY @ [0x2160]) 2]"
  have p1: "parseHierLevel nfkcTable (Some (CHEMISTRY @ [0x2160])) = Some \<lparr>base = CHEMISTRY, level = 1\<rparr>"
    and p3: "parseHierLevel nfkcTable (Some (CHEMISTRY @ [0x2162])) = Some \<lparr>base = CHEMISTRY, level = 3\<rparr>"
    by (simp_all add: hier_defs string_defs CHEMISTRY_def)
  have a13: "attained nfkcTable ?l13 CHEMISTRY = {1, 3}"
    by (auto simp: attained_def item_def p1 p3)
  have a1: "attained nfkcTable ?l1 CHEMISTRY = {1}"
    by (auto simp: attained_def item_def p1)
  have f: "filter (\<lambda>i. i \<notin> {1, 3 :: nat}) [1..<Max {1, 3}] = [2]"
    by (simp add: upt_conv_Cons)
  note w13 = seqViolations_missing [of nfkcTable ?l13]
  have m13: "(CHEMISTRY, [2]) \<in> set (seqViolations nfkcTable ?l13)"
  proof -
    have "attained nfkcTable ?l13 CHEMISTRY \<noteq> {} \<and> [2 :: nat] \<noteq> []
          \<and> [2] = filter (\<lambda>i. i \<notin> attained nfkcTable ?l13 CHEMISTRY)
                     [1..<Max (attained nfkcTable ?l13 CHEMISTRY)]"
      unfolding a13 f by simp
    with w13 show ?thesis by blast
  qed
  have e13: "seqViolations nfkcTable ?l13 = [(CHEMISTRY, [2])]"
    by (simp add: seqViolations_def levelsByBase_def addLevel_def missingLevels_def maxLevel_def
        hier_defs string_defs item_def CHEMISTRY_def upt_conv_Cons)
  have e123: "seqViolations nfkcTable ?l123 = []"
    by (simp add: seqViolations_def levelsByBase_def addLevel_def missingLevels_def maxLevel_def
        hier_defs string_defs item_def CHEMISTRY_def upt_conv_Cons)
  note w1 = seqViolations_missing [of nfkcTable ?l1]
  have g: "\<forall>i. 1 \<le> i \<and> i < Max (attained nfkcTable ?l1 CHEMISTRY) \<longrightarrow> i \<in> attained nfkcTable ?l1 CHEMISTRY"
    unfolding a1 by simp
  with w1 have n1: "CHEMISTRY \<notin> fst ` set (seqViolations nfkcTable ?l1)" by blast
  from a13 m13 e13 e123 a1 n1 show ?thesis by blast
qed

section \<open>The prerequisite table\<close>

lemma PREREQS_snoc: "PREREQS nfkc (raw @ [e]) = loadEntry nfkc e (PREREQS nfkc raw)"
  by (simp add: PREREQS_def)

lemma loadEntry_distinct: "distinct (map fst m) \<Longrightarrow> distinct (map fst (loadEntry nfkc e m))"
  by (simp add: loadEntry_def distinct_update split: option.splits)

lemma PREREQS_distinct: "distinct (map fst (PREREQS nfkc raw))"
  by (induction raw rule: rev_induct) (simp_all add: PREREQS_snoc loadEntry_distinct, simp add: PREREQS_def)

lemma loadEntry_lookup:
  "map_of (loadEntry nfkc e m) nk =
     (if normCourseName nfkc (Some (fst e)) = Some nk \<and> nk \<noteq> [] then Some (normReqs nfkc (snd e))
      else map_of m nk)"
  by (auto simp: loadEntry_def update_conv' split: option.splits)

lemma normReqs_eq:
  "normReqs nfkc arr =
     filter (\<lambda>x. x \<noteq> []) (map (\<lambda>v. the (normCourseName nfkc (Some v))) (filter (\<lambda>v. v \<noteq> []) arr))"
  by (induction arr) (simp_all add: normReqs_def normCourseName_def)

text \<open>
  Claim C8: the table has every key once; the requirement list of a normalized key \<open>nk\<close>
  is the normalized list of the last raw entry whose normalized key is \<open>nk\<close>; a
  key that normalizes to the empty string has no entry; and the normalized list holds
  the normalized values in their order (a value that is or becomes the empty string
  is left out). The table is the value of \<open>PREREQS\<close>: the checks take it as an argument
  and return no table, so nothing changes it after the load.
\<close>

theorem PREREQS_last_write_wins:
  "distinct (map fst (PREREQS nfkc raw))
   \<and> (\<forall>nk. map_of (PREREQS nfkc raw) nk =
         (let es = filter (\<lambda>e. normCourseName nfkc (Some (fst e)) = Some nk) raw
          in if es = [] \<or> nk = [] then None else Some (normReqs nfkc (snd (last es)))))
   \<and> (\<forall>arr. normReqs nfkc arr =
         filter (\<lambda>x. x \<noteq> [])
           (map (\<lambda>v. the (normCourseName nfkc (Some v))) (filter (\<lambda>v. v \<noteq> []) arr)))"
proof -
  have l: "map_of (PREREQS nfkc raw) nk =
         (let es = filter (\<lambda>e. normCourseName nfkc (Some (fst e)) = Some nk) raw
          in if es = [] \<or> nk = [] then None else Some (normReqs nfkc (snd (last es))))" for nk
  proof (induction raw rule: rev_induct)
    case Nil
    show ?case by (simp add: PREREQS_def)
  next
    case (snoc e raw)
    show ?case
      unfolding PREREQS_snoc loadEntry_lookup snoc.IH by (simp add: Let_def)
  qed
  from PREREQS_distinct l normReqs_eq show ?thesis by blast
qed

text \<open>
  Five raw entries: the fourth has the normalized key of the first and replaces its
  list where it stands; the keys of the second and the fifth normalize to the empty
  string and are dropped.
\<close>

theorem PREREQS_last_write_wins_witness:
  "PREREQS nfkcTable
     [(asc ''A (x y)'', [asc ''B'']), (asc ''  '', [asc ''C'']), (asc ''C'', [asc ''D'', asc '' '', asc '' E '']),
      (asc '' A (xy) '', [[0xFF22], asc ''( )'']), ([], [asc ''F''])]
   = [(asc ''A (xy)'', [asc ''B'', asc ''()'']), (asc ''C'', [asc ''D'', asc ''E''])]
   \<and> map_of (PREREQS nfkcTable
     [(asc ''A (x y)'', [asc ''B'']), (asc ''  '', [asc ''C'']), (asc ''C'', [asc ''D'', asc '' '', asc '' E '']),
      (asc '' A (xy) '', [[0xFF22], asc ''( )'']), ([], [asc ''F''])]) (asc ''A (xy)'')
     = Some [asc ''B'', asc ''()'']
   \<and> map_of (PREREQS nfkcTable
     [(asc ''A (x y)'', [asc ''B'']), (asc ''  '', [asc ''C'']), (asc ''C'', [asc ''D'', asc '' '', asc '' E '']),
      (asc '' A (xy) '', [[0xFF22], asc ''( )'']), ([], [asc ''F''])]) [] = None"
proof -
  let ?raw = "[(asc ''A (x y)'', [asc ''B'']), (asc ''  '', [asc ''C'']), (asc ''C'', [asc ''D'', asc '' '', asc '' E '']),
      (asc '' A (xy) '', [[0xFF22], asc ''( )'']), ([], [asc ''F''])] :: (ustring \<times> ustring list) list"
  note w = PREREQS_last_write_wins [of nfkcTable ?raw]
  have e: "PREREQS nfkcTable ?raw = [(asc ''A (xy)'', [asc ''B'', asc ''()'']), (asc ''C'', [asc ''D'', asc ''E''])]"
    by (simp add: PREREQS_def loadEntry_def normReqs_def normCourseName_def List.map_filter_def string_defs)
  have "map_of (PREREQS nfkcTable ?raw) (asc ''A (xy)'') =
         (let es = filter (\<lambda>e. normCourseName nfkcTable (Some (fst e)) = Some (asc ''A (xy)'')) ?raw
          in if es = [] \<or> asc ''A (xy)'' = ([] :: ustring) then None else Some (normReqs nfkcTable (snd (last es))))"
    using w by blast
  then have a: "map_of (PREREQS nfkcTable ?raw) (asc ''A (xy)'') = Some [asc ''B'', asc ''()'']"
    by (simp add: normReqs_def normCourseName_def List.map_filter_def string_defs)
  have "map_of (PREREQS nfkcTable ?raw) [] =
         (let es = filter (\<lambda>e. normCourseName nfkcTable (Some (fst e)) = Some []) ?raw
          in if es = [] \<or> ([] :: ustring) = [] then None else Some (normReqs nfkcTable (snd (last es))))"
    using w by blast
  then have n: "map_of (PREREQS nfkcTable ?raw) [] = None" by simp
  from e a n show ?thesis by blast
qed

section \<open>The explicit-prerequisite check\<close>

lemma haveNames_set:
  "set (haveNames nfkc list) =
     {nm. nm \<noteq> [] \<and> (\<exists>r \<in> set list. normCourseName nfkc (Some (itemName r)) = Some nm)}"
  by (induction list) (auto simp: haveNames_def List.map_filter_def split: option.splits)

lemma explicitViolations_distinct:
  "distinct (map fst prereqs) \<Longrightarrow> distinct (map fst (explicitViolations nfkc prereqs list))"
proof -
  assume d: "distinct (map fst prereqs)"
  let ?have = "haveNames nfkc list"
  have "map fst (explicitViolations nfkc prereqs list)
        = map fst (filter (\<lambda>e. filter (\<lambda>r. r \<notin> set ?have) (snd e) \<noteq> [])
                     (filter (\<lambda>e. fst e \<in> set ?have) prereqs))"
    by (simp add: explicitViolations_def Let_def filter_map comp_def)
  then show ?thesis using d by (simp add: distinct_map_filter)
qed

text \<open>
  Claim C4, amended: the check builds the set of the student's normalized course names
  (empty names left out); a course \<open>c\<close> is reported, once, with the list \<open>m\<close> exactly
  when \<open>c\<close> is in that set, is a key of the prerequisite table, and \<open>m\<close> is the list of
  its required names that are not in the set, which is not empty. With the table of
  calculus requiring mathematics I and II (written with U+2160 and U+2161) and a student
  holding calculus and mathematics I, \<^verbatim>\<open>buildChecks\<close> returns the calculus name, the text
  ": U+C120 U+C218 U+B204 U+B77D U+2192 " and the name of mathematics II in its
  normalized form, with the ASCII numeral II.
\<close>

theorem explicitViolations_missing:
  "set (haveNames nfkc list) =
     {nm. nm \<noteq> [] \<and> (\<exists>r \<in> set list. normCourseName nfkc (Some (itemName r)) = Some nm)}
   \<and> distinct (map fst (explicitViolations nfkc (PREREQS nfkc raw) list))
   \<and> (\<forall>c m. (c, m) \<in> set (explicitViolations nfkc (PREREQS nfkc raw) list) \<longleftrightarrow>
          c \<in> set (haveNames nfkc list) \<and> m \<noteq> []
          \<and> (\<exists>reqs. map_of (PREREQS nfkc raw) c = Some reqs
                \<and> m = filter (\<lambda>r. r \<notin> set (haveNames nfkc list)) reqs))
   \<and> buildChecks nfkcTable
        (PREREQS nfkcTable [(CALCULUS, [MATHEMATICS @ [0x2160], MATHEMATICS @ [0x2161]])])
        [item MATHEMATICS CALCULUS 3, item MATHEMATICS (MATHEMATICS @ [0x2160]) 3]
      = CALCULUS @ asc '': '' @ SEONSU @ asc '' '' @ NURAK @ [0x20, 0x2192, 0x20] @ MATHEMATICS @ asc ''II''"
proof -
  have d: "distinct (map fst (PREREQS nfkc raw))"
    by (rule PREREQS_distinct)
  have iff: "(c, m) \<in> set (explicitViolations nfkc (PREREQS nfkc raw) list) \<longleftrightarrow>
          c \<in> set (haveNames nfkc list) \<and> m \<noteq> []
          \<and> (\<exists>reqs. map_of (PREREQS nfkc raw) c = Some reqs
                \<and> m = filter (\<lambda>r. r \<notin> set (haveNames nfkc list)) reqs)" for c m
  proof
    assume "(c, m) \<in> set (explicitViolations nfkc (PREREQS nfkc raw) list)"
    then obtain reqs where r: "(c, reqs) \<in> set (PREREQS nfkc raw)" "c \<in> set (haveNames nfkc list)"
      "m = filter (\<lambda>r. r \<notin> set (haveNames nfkc list)) reqs" "m \<noteq> []"
      by (auto simp: explicitViolations_def Let_def)
    from r(1) d have "map_of (PREREQS nfkc raw) c = Some reqs" by simp
    with r show "c \<in> set (haveNames nfkc list) \<and> m \<noteq> []
          \<and> (\<exists>reqs. map_of (PREREQS nfkc raw) c = Some reqs
                \<and> m = filter (\<lambda>r. r \<notin> set (haveNames nfkc list)) reqs)" by blast
  next
    assume "c \<in> set (haveNames nfkc list) \<and> m \<noteq> []
          \<and> (\<exists>reqs. map_of (PREREQS nfkc raw) c = Some reqs
                \<and> m = filter (\<lambda>r. r \<notin> set (haveNames nfkc list)) reqs)"
    then obtain reqs where r: "c \<in> set (haveNames nfkc list)" "m \<noteq> []"
      "map_of (PREREQS nfkc raw) c = Some reqs"
      "m = filter (\<lambda>r. r \<notin> set (haveNames nfkc list)) reqs" by blast
    from r(3) have "(c, reqs) \<in> set (PREREQS nfkc raw)" by (rule map_of_SomeD)
    with r show "(c, m) \<in> set (explicitViolations nfkc (PREREQS nfkc raw) list)"
      by (force simp: explicitViolations_def Let_def)
  qed
  have ex: "buildChecks nfkcTable
        (PREREQS nfkcTable [(CALCULUS, [MATHEMATICS @ [0x2160], MATHEMATICS @ [0x2161]])])
        [item MATHEMATICS CALCULUS 3, item MATHEMATICS (MATHEMATICS @ [0x2160]) 3]
      = CALCULUS @ asc '': '' @ SEONSU @ asc '' '' @ NURAK @ [0x20, 0x2192, 0x20] @ MATHEMATICS @ asc ''II''"
  proof -
    have p: "PREREQS nfkcTable [(CALCULUS, [MATHEMATICS @ [0x2160], MATHEMATICS @ [0x2161]])]
             = [(CALCULUS, [MATHEMATICS @ [73], MATHEMATICS @ [73, 73]])]"
      by (simp add: PREREQS_def loadEntry_def normReqs_def normCourseName_def List.map_filter_def
          string_defs CALCULUS_def MATHEMATICS_def)
    have s: "seqViolations nfkcTable
               [item MATHEMATICS CALCULUS 3, item MATHEMATICS (MATHEMATICS @ [0x2160]) 3] = []"
      by (simp add: seqViolations_def levelsByBase_def addLevel_def missingLevels_def maxLevel_def
          hier_defs string_defs item_def CALCULUS_def MATHEMATICS_def)
    have e: "explicitViolations nfkcTable [(CALCULUS, [MATHEMATICS @ [73], MATHEMATICS @ [73, 73]])]
               [item MATHEMATICS CALCULUS 3, item MATHEMATICS (MATHEMATICS @ [0x2160]) 3]
             = [(CALCULUS, [MATHEMATICS @ [73, 73]])]"
      by (simp add: explicitViolations_def haveNames_def normCourseName_def List.map_filter_def
          string_defs item_def CALCULUS_def MATHEMATICS_def)
    show ?thesis unfolding buildChecks_def p s e by (simp add: explicitPart_def)
  qed
  from haveNames_set explicitViolations_distinct [OF d] iff ex show ?thesis by blast
qed

text \<open>
  Claim C4, as stated, gives the report as the calculus name, ": missing U+2192 " and
  mathematics with U+2161. The check text is another string.
\<close>

theorem explicit_report_literal:
  "buildChecks nfkcTable
     (PREREQS nfkcTable [(CALCULUS, [MATHEMATICS @ [0x2160], MATHEMATICS @ [0x2161]])])
     [item MATHEMATICS CALCULUS 3, item MATHEMATICS (MATHEMATICS @ [0x2160]) 3]
   \<noteq> CALCULUS @ asc '': missing '' @ [0x2192, 0x20] @ MATHEMATICS @ [0x2161]"
proof -
  have p: "PREREQS nfkcTable [(CALCULUS, [MATHEMATICS @ [0x2160], MATHEMATICS @ [0x2161]])]
           = [(CALCULUS, [MATHEMATICS @ [73], MATHEMATICS @ [73, 73]])]"
    by (simp add: PREREQS_def loadEntry_def normReqs_def normCourseName_def List.map_filter_def
        string_defs CALCULUS_def MATHEMATICS_def)
  have s: "seqViolations nfkcTable
             [item MATHEMATICS CALCULUS 3, item MATHEMATICS (MATHEMATICS @ [0x2160]) 3] = []"
    by (simp add: seqViolations_def levelsByBase_def addLevel_def missingLevels_def maxLevel_def
        hier_defs string_defs item_def CALCULUS_def MATHEMATICS_def)
  have e: "explicitViolations nfkcTable [(CALCULUS, [MATHEMATICS @ [73], MATHEMATICS @ [73, 73]])]
             [item MATHEMATICS CALCULUS 3, item MATHEMATICS (MATHEMATICS @ [0x2160]) 3]
           = [(CALCULUS, [MATHEMATICS @ [73, 73]])]"
    by (simp add: explicitViolations_def haveNames_def normCourseName_def List.map_filter_def
        string_defs item_def CALCULUS_def MATHEMATICS_def)
  show ?thesis unfolding buildChecks_def p s e
    by (simp add: explicitPart_def CALCULUS_def SEONSU_def NURAK_def MATHEMATICS_def)
qed

text \<open>
  The student of the example holds calculus, which the table has with the two normalized
  requirements; mathematics II alone is missing. With mathematics II as well, nothing is
  reported.
\<close>

theorem explicitViolations_missing_witness:
  "CALCULUS \<in> set (haveNames nfkcTable
        [item MATHEMATICS CALCULUS 3, item MATHEMATICS (MATHEMATICS @ [0x2160]) 3])
   \<and> map_of (PREREQS nfkcTable [(CALCULUS, [MATHEMATICS @ [0x2160], MATHEMATICS @ [0x2161]])]) CALCULUS
       = Some [MATHEMATICS @ asc ''I'', MATHEMATICS @ asc ''II'']
   \<and> (CALCULUS, [MATHEMATICS @ asc ''II''])
       \<in> set (explicitViolations nfkcTable
                (PREREQS nfkcTable [(CALCULUS, [MATHEMATICS @ [0x2160], MATHEMATICS @ [0x2161]])])
                [item MATHEMATICS CALCULUS 3, item MATHEMATICS (MATHEMATICS @ [0x2160]) 3])
   \<and> explicitViolations nfkcTable
        (PREREQS nfkcTable [(CALCULUS, [MATHEMATICS @ [0x2160], MATHEMATICS @ [0x2161]])])
        [item MATHEMATICS CALCULUS 3, item MATHEMATICS (MATHEMATICS @ [0x2160]) 3,
         item MATHEMATICS (MATHEMATICS @ asc ''II'') 3] = []"
proof -
  let ?raw = "[(CALCULUS, [MATHEMATICS @ [0x2160], MATHEMATICS @ [0x2161]])]"
  let ?l = "[item MATHEMATICS CALCULUS 3, item MATHEMATICS (MATHEMATICS @ [0x2160]) 3]"
  note w = explicitViolations_missing [of nfkcTable ?l ?raw]
  have h: "haveNames nfkcTable ?l = [CALCULUS, MATHEMATICS @ [73]]"
    by (simp add: haveNames_def normCourseName_def List.map_filter_def
        string_defs item_def CALCULUS_def MATHEMATICS_def)
  have p: "PREREQS nfkcTable ?raw = [(CALCULUS, [MATHEMATICS @ [73], MATHEMATICS @ [73, 73]])]"
    by (simp add: PREREQS_def loadEntry_def normReqs_def normCourseName_def List.map_filter_def
        string_defs CALCULUS_def MATHEMATICS_def)
  have 1: "CALCULUS \<in> set (haveNames nfkcTable ?l)" unfolding h by simp
  have 2: "map_of (PREREQS nfkcTable ?raw) CALCULUS = Some [MATHEMATICS @ asc ''I'', MATHEMATICS @ asc ''II'']"
    unfolding p by simp
  have "[MATHEMATICS @ asc ''II''] = filter (\<lambda>r. r \<notin> set (haveNames nfkcTable ?l)) [MATHEMATICS @ asc ''I'', MATHEMATICS @ asc ''II'']"
    unfolding h by (simp add: CALCULUS_def MATHEMATICS_def)
  with w 1 2 have 3: "(CALCULUS, [MATHEMATICS @ asc ''II'']) \<in> set (explicitViolations nfkcTable (PREREQS nfkcTable ?raw) ?l)"
    by blast
  have 4: "explicitViolations nfkcTable (PREREQS nfkcTable ?raw)
        [item MATHEMATICS CALCULUS 3, item MATHEMATICS (MATHEMATICS @ [0x2160]) 3,
         item MATHEMATICS (MATHEMATICS @ asc ''II'') 3] = []"
    unfolding p
    by (simp add: explicitViolations_def haveNames_def normCourseName_def List.map_filter_def
        string_defs item_def CALCULUS_def MATHEMATICS_def)
  from 1 2 3 4 show ?thesis by blast
qed

section \<open>The export\<close>

lemmas export_defs = exportRows_def groupColumns_def byStu_def addRow_def studentKey_def showInt_def
  showNat.simps
  sortBy_def compareKeys_def keyNumbers_def jsNumber_def jsDiff_def isDigit_def digitsValue_def
  row_def List.map_filter_def Let_def

lemma outKey_outRow [simp]: "outKey (outRow nfkc prereqs groups s) = (stGrade s, stClass s, stNumber s)"
  by (simp add: outKey_def outRow_def Let_def)

text \<open>
  Claim C6, that the records are ordered by grade, class and number, each as a number,
  whatever the order of the rows. The comparison reads the numbers back from the key,
  split at every hyphen: the key of grade -1, class 1, number 1 starts with a hyphen,
  so its parts are the empty string, 1, 1, 1, and the comparison sees grade 0, class 1,
  number 1; for grade -2 it sees grade 0, class 2, number 1. In either order of the two
  rows the record of grade -1 comes before the record of grade -2.
\<close>

theorem negative_grade_order:
  "map outKey (exportRows nfkcTable (\<lambda>gs. gs) []
      [row (Some (- 2)) (Some 1) (Some 1) None None None,
       row (Some (- 1)) (Some 1) (Some 1) None None None])
     = [(Some (- 1), Some 1, Some 1), (Some (- 2), Some 1, Some 1)]
   \<and> map outKey (exportRows nfkcTable (\<lambda>gs. gs) []
      [row (Some (- 1)) (Some 1) (Some 1) None None None,
       row (Some (- 2)) (Some 1) (Some 1) None None None])
     = [(Some (- 1), Some 1, Some 1), (Some (- 2), Some 1, Some 1)]
   \<and> keyNumbers (studentKey (- 1) 1 1) = (Some 0, Some 1, Some 1)
   \<and> keyNumbers (studentKey (- 2) 1 1) = (Some 0, Some 2, Some 1)"
  by (simp add: export_defs)

text \<open>
  Five rows of three students with keys that are not negative, one row without a grade:
  three records, in the order of grade, class and number (class 9 before class 10).
\<close>

lemma export_order_example:
  "map outKey (exportRows nfkcTable (\<lambda>gs. gs) []
      [row (Some 2) (Some 10) (Some 1) None None None,
       row (Some 2) (Some 9) (Some 30) None None None,
       row None (Some 9) (Some 30) None None None,
       row (Some 1) (Some 12) (Some 7) None None None,
       row (Some 2) (Some 9) (Some 30) None None None])
     = [(Some 1, Some 12, Some 7), (Some 2, Some 9, Some 30), (Some 2, Some 10, Some 1)]"
  by (simp add: export_defs)

text \<open>
  Keys of numbers that are not negative. The printed number is a run of digits with
  the number as its value, so the comparison reads the three numbers of such a key
  back, and compares two such keys as the triples of their numbers.
\<close>

lemma showNat_digits: "showNat n \<noteq> [] \<and> (\<forall>c \<in> set (showNat n). isDigit c)"
proof (induction n rule: showNat.induct)
  case (1 n)
  show ?case
  proof (cases "n < 10")
    case True
    then show ?thesis by (simp add: isDigit_def showNat.simps)
  next
    case False
    have "n mod 10 < 10" by simp
    then have "isDigit (48 + n mod 10)" unfolding isDigit_def by linarith
    moreover have "showNat n = showNat (n div 10) @ [48 + n mod 10]"
      using False by (subst showNat.simps) simp
    ultimately show ?thesis using 1 [OF False] by auto
  qed
qed

lemma digitsValue_snoc: "digitsValue (s @ [c]) = 10 * digitsValue s + (c - 48)"
  by (simp add: digitsValue_def)

lemma digitsValue_showNat: "digitsValue (showNat n) = n"
proof (induction n rule: showNat.induct)
  case (1 n)
  show ?case
  proof (cases "n < 10")
    case True
    then show ?thesis by (simp add: digitsValue_def showNat.simps)
  next
    case False
    have "showNat n = showNat (n div 10) @ [48 + n mod 10]"
      using False by (subst showNat.simps) simp
    then show ?thesis using 1 [OF False] by (simp add: digitsValue_snoc)
  qed
qed

lemma jsNumber_showNat: "jsNumber (showNat n) = Some (int n)"
  using showNat_digits [of n] by (simp add: jsNumber_def list_all_iff digitsValue_showNat)

lemma splitOn_none: "d \<notin> set s \<Longrightarrow> splitOn d s = [s]"
  by (induction s) auto

lemma splitOn_first: "d \<notin> set a \<Longrightarrow> splitOn d (a @ d # rest) = a # splitOn d rest"
  by (induction a) auto

lemma hyphen_not_digit: "\<forall>c \<in> set s. isDigit c \<Longrightarrow> of_char CHR ''-'' \<notin> set s"
  by (auto simp: isDigit_def)

lemma keyNumbers_studentKey:
  assumes "0 \<le> g" "0 \<le> c" "0 \<le> n"
  shows "keyNumbers (studentKey g c n) = (Some g, Some c, Some n)"
proof -
  let ?h = "of_char CHR ''-'' :: nat"
  let ?a = "showNat (nat g)" and ?b = "showNat (nat c)" and ?c = "showNat (nat n)"
  have k: "studentKey g c n = ?a @ ?h # ?b @ ?h # ?c"
    using assms by (simp add: studentKey_def showInt_def)
  have na: "?h \<notin> set ?a" and nb: "?h \<notin> set ?b" and nc: "?h \<notin> set ?c"
    using showNat_digits hyphen_not_digit by blast+
  have "splitOn ?h (?a @ ?h # ?b @ ?h # ?c) = [?a, ?b, ?c]"
    using na nb nc by (simp add: splitOn_first splitOn_none)
  then have "map jsNumber (splitOn ?h (studentKey g c n)) = [Some g, Some c, Some n]"
    using assms by (simp add: k jsNumber_showNat)
  then show ?thesis unfolding keyNumbers_def by (simp add: Let_def)
qed

lemma decodeKey_studentKey:
  "0 \<le> g \<Longrightarrow> 0 \<le> c \<Longrightarrow> 0 \<le> n \<Longrightarrow> decodeKey (studentKey g c n) = (g, c, n)"
  by (simp add: decodeKey_def keyNumbers_studentKey)

lemma compareKeys_studentKey:
  assumes "0 \<le> g" "0 \<le> c" "0 \<le> n" "0 \<le> g'" "0 \<le> c'" "0 \<le> n'"
  shows "compareKeys (studentKey g c n) (studentKey g' c' n') \<le> 0 \<longleftrightarrow> (g, c, n) \<le> (g', c', n')"
  using assms by (auto simp: compareKeys_def keyNumbers_studentKey jsDiff_def less_eq_prod_def)


text \<open>
  \<^verbatim>\<open>byStu\<close> has every key once; an entry carries the three numbers that its key prints;
  the keys are those of the rows that have all three numbers.
\<close>

lemma byStu_snoc: "byStu (rows @ [r]) = addRow r (byStu rows)"
  by (simp add: byStu_def)

lemma studentKeys_snoc:
  "studentKeys (rows @ [r]) = studentKeys rows \<union> (case keyOf r of None \<Rightarrow> {} | Some t \<Rightarrow> {t})"
  by (auto simp: studentKeys_def keyOf_def split: option.splits)

lemma validEntry_mono: "validEntry rows e \<Longrightarrow> validEntry (rows @ [r]) e"
  by (auto simp: validEntry_def studentKeys_snoc)

lemma update_entries: "e \<in> set (AList.update k v m) \<Longrightarrow> e = (k, v) \<or> e \<in> set m"
  by (induction m) (auto split: if_splits)

lemma addRow_keys:
  "fst ` set (addRow r m) = fst ` set m \<union> (case keyOf r of None \<Rightarrow> {} | Some (g, c, n) \<Rightarrow> {studentKey g c n})"
  by (auto simp: addRow_def keyOf_def Let_def dom_update split: option.splits)

lemma addRow_distinct: "distinct (map fst m) \<Longrightarrow> distinct (map fst (addRow r m))"
  by (simp add: addRow_def Let_def distinct_update split: option.splits)

lemma addRow_valid:
  assumes "\<forall>e \<in> set m. validEntry rows e" "distinct (map fst m)"
  shows "\<forall>e \<in> set (addRow r m). validEntry (rows @ [r]) e"
proof (cases "keyOf r")
  case None
  then have "addRow r m = m" by (auto simp: addRow_def keyOf_def split: option.splits)
  then show ?thesis using assms validEntry_mono by auto
next
  case (Some t)
  obtain g c n where t: "t = (g, c, n)" by (cases t) auto
  with Some have f: "studentGrade r = Some g" "studentClass r = Some c" "studentNumber r = Some n"
    by (auto simp: keyOf_def split: option.splits)
  let ?key = "studentKey g c n"
  let ?new = "\<lparr>stGrade = studentGrade r, stClass = studentClass r, stNumber = studentNumber r,
               stName = studentName r, stList = []\<rparr>"
  let ?ent = "case map_of m ?key of None \<Rightarrow> ?new | Some e \<Rightarrow> e"
  have eq: "addRow r m = AList.update ?key (?ent\<lparr>stList := stList ?ent @ [r]\<rparr>) m"
    using f by (simp add: addRow_def Let_def)
  have mem: "(g, c, n) \<in> studentKeys (rows @ [r])"
    using Some t by (simp add: studentKeys_snoc)
  have v: "validEntry (rows @ [r]) (?key, ?ent\<lparr>stList := stList ?ent @ [r]\<rparr>)"
  proof (cases "map_of m ?key")
    case None
    then show ?thesis using f mem by (auto simp: validEntry_def)
  next
    case (Some e)
    then have "(?key, e) \<in> set m" by (rule map_of_SomeD)
    then have "validEntry (rows @ [r]) (?key, e)" using assms(1) validEntry_mono by blast
    then show ?thesis using Some by (auto simp: validEntry_def)
  qed
  show ?thesis
  proof
    fix e assume "e \<in> set (addRow r m)"
    then have "e = (?key, ?ent\<lparr>stList := stList ?ent @ [r]\<rparr>) \<or> e \<in> set m"
      unfolding eq by (rule update_entries)
    then show "validEntry (rows @ [r]) e" using v assms(1) validEntry_mono by blast
  qed
qed

lemma byStu_invariant:
  "distinct (map fst (byStu rows)) \<and> (\<forall>e \<in> set (byStu rows). validEntry rows e)
   \<and> fst ` set (byStu rows) = (\<lambda>(g, c, n). studentKey g c n) ` studentKeys rows"
proof (induction rows rule: rev_induct)
  case Nil
  show ?case by (simp add: byStu_def studentKeys_def)
next
  case (snoc r rows)
  have d: "distinct (map fst (byStu (rows @ [r])))"
    using snoc by (simp add: byStu_snoc addRow_distinct)
  have v: "\<forall>e \<in> set (byStu (rows @ [r])). validEntry (rows @ [r]) e"
    using snoc addRow_valid [of "byStu rows" rows r] by (simp add: byStu_snoc)
  have k: "fst ` set (byStu (rows @ [r])) = (\<lambda>(g, c, n). studentKey g c n) ` studentKeys (rows @ [r])"
    using snoc by (auto simp: byStu_snoc addRow_keys studentKeys_snoc split: option.splits)
  from d v k show ?case by blast
qed

text \<open>On a comparison that agrees with a linear order of a key, the sort is the stable sort by that key.\<close>

lemma insertBy_insort:
  assumes "\<forall>y \<in> set ys. cmp x y \<le> 0 \<longleftrightarrow> f x \<le> f y"
  shows "insertBy cmp x ys = insort_key f x ys"
  using assms by (induction ys) auto

lemma sortBy_sort_key:
  assumes "\<forall>x \<in> set xs. \<forall>y \<in> set xs. cmp x y \<le> 0 \<longleftrightarrow> f x \<le> (f y :: 'b :: linorder)"
  shows "sortBy cmp xs = sort_key f xs"
  using assms
proof (induction xs)
  case Nil
  show ?case by (simp add: sortBy_def)
next
  case (Cons x xs)
  have ih: "sortBy cmp xs = sort_key f xs" using Cons by simp
  have "sortBy cmp (x # xs) = insertBy cmp x (sortBy cmp xs)" by (simp add: sortBy_def)
  also have "\<dots> = insertBy cmp x (sort_key f xs)" by (simp add: ih)
  also have "\<dots> = insort_key f x (sort_key f xs)"
    by (rule insertBy_insort) (use Cons.prems in simp)
  also have "\<dots> = sort_key f (x # xs)" by simp
  finally show ?case .
qed


text \<open>
  When no grade, class or number is negative, the export has one record for every
  student key of the rows and no other, in strictly ascending order of grade, class and
  number, whatever the order of the rows: the identity columns are the sorted list of
  the set of student keys.
\<close>

lemma outKey_rows:
  assumes "\<forall>k \<in> set ks. \<exists>st. map_of m k = Some st \<and> (stGrade st, stClass st, stNumber st) = G k"
  shows "map outKey (List.map_filter (\<lambda>key. map_option (outRow nfkc prereqs groups) (map_of m key)) ks)
         = map G ks"
  using assms by (induction ks) (auto simp: List.map_filter_def)

lemma exportRows_sorted_nonneg:
  assumes nn: "\<forall>t \<in> studentKeys rows. 0 \<le> fst t \<and> 0 \<le> fst (snd t) \<and> 0 \<le> snd (snd t)"
  shows "map outKey (exportRows nfkc koSort prereqs rows)
         = map (\<lambda>t. (Some (fst t), Some (fst (snd t)), Some (snd (snd t))))
             (sorted_list_of_set (studentKeys rows))"
proof -
  let ?m = "byStu rows"
  let ?ks = "map fst ?m"
  let ?some = "\<lambda>t :: int \<times> int \<times> int. (Some (fst t), Some (fst (snd t)), Some (snd (snd t)))"
  from byStu_invariant [of rows]
  have d: "distinct ?ks" and v: "\<forall>e \<in> set ?m. validEntry rows e"
    and k: "fst ` set ?m = (\<lambda>(g, c, n). studentKey g c n) ` studentKeys rows" by blast+
  have key: "\<exists>t \<in> studentKeys rows. x = studentKey (fst t) (fst (snd t)) (snd (snd t)) \<and> decodeKey x = t"
    if "x \<in> set ?ks" for x
  proof -
    from that k obtain t where t: "t \<in> studentKeys rows" "x = (\<lambda>(g, c, n). studentKey g c n) t"
      by auto
    then have "x = studentKey (fst t) (fst (snd t)) (snd (snd t))" by (simp add: case_prod_beta)
    moreover have "decodeKey (studentKey (fst t) (fst (snd t)) (snd (snd t))) = t"
      using nn t(1) by (simp add: decodeKey_studentKey)
    ultimately show ?thesis using t(1) by blast
  qed
  have cmp: "\<forall>x \<in> set ?ks. \<forall>y \<in> set ?ks. compareKeys x y \<le> 0 \<longleftrightarrow> decodeKey x \<le> decodeKey y"
  proof (intro ballI)
    fix x y assume "x \<in> set ?ks" "y \<in> set ?ks"
    then obtain t u where t: "t \<in> studentKeys rows" "x = studentKey (fst t) (fst (snd t)) (snd (snd t))" "decodeKey x = t"
      and u: "u \<in> studentKeys rows" "y = studentKey (fst u) (fst (snd u)) (snd (snd u))" "decodeKey y = u"
      using key by blast
    have "compareKeys x y \<le> 0 \<longleftrightarrow> (fst t, fst (snd t), snd (snd t)) \<le> (fst u, fst (snd u), snd (snd u))"
      unfolding t(2) u(2) using nn t(1) u(1) by (intro compareKeys_studentKey) auto
    then show "compareKeys x y \<le> 0 \<longleftrightarrow> decodeKey x \<le> decodeKey y" using t(3) u(3) by simp
  qed
  have sorted_keys: "sortBy compareKeys ?ks = sort_key decodeKey ?ks"
    using cmp by (rule sortBy_sort_key)
  let ?S = "sort_key decodeKey ?ks"
  have rows_eq: "map outKey (exportRows nfkc koSort prereqs rows) = map (\<lambda>x. ?some (decodeKey x)) ?S"
  proof -
    have "\<forall>x \<in> set ?S. \<exists>st. map_of ?m x = Some st \<and> (stGrade st, stClass st, stNumber st) = ?some (decodeKey x)"
    proof
      fix x assume "x \<in> set ?S"
      then have x: "x \<in> set ?ks" by simp
      then obtain st where st: "(x, st) \<in> set ?m" by auto
      with d have l: "map_of ?m x = Some st" by simp
      from v st have "validEntry rows (x, st)" by blast
      then obtain g c n where g: "(g, c, n) \<in> studentKeys rows" "x = studentKey g c n"
        "stGrade st = Some g" "stClass st = Some c" "stNumber st = Some n"
        by (auto simp: validEntry_def)
      from nn g(1) have "0 \<le> g \<and> 0 \<le> c \<and> 0 \<le> n" by auto
      then have "decodeKey x = (g, c, n)" using g(2) by (simp add: decodeKey_studentKey)
      with g l show "\<exists>st. map_of ?m x = Some st \<and> (stGrade st, stClass st, stNumber st) = ?some (decodeKey x)"
        by simp
    qed
    then have "map outKey (List.map_filter (\<lambda>key. map_option (outRow nfkc prereqs (groupColumns nfkc koSort rows)) (map_of ?m key)) ?S)
               = map (\<lambda>x. ?some (decodeKey x)) ?S"
      by (rule outKey_rows)
    then show ?thesis by (simp add: exportRows_def Let_def sorted_keys)
  qed
  have inj: "inj_on decodeKey (set ?ks)"
  proof (rule inj_onI)
    fix x y assume "x \<in> set ?ks" "y \<in> set ?ks" "decodeKey x = decodeKey y"
    then show "x = y" using key by metis
  qed
  have img: "decodeKey ` set ?ks = studentKeys rows"
  proof
    show "decodeKey ` set ?ks \<subseteq> studentKeys rows"
    proof
      fix t assume "t \<in> decodeKey ` set ?ks"
      then obtain x where "x \<in> set ?ks" "t = decodeKey x" by blast
      then show "t \<in> studentKeys rows" using key [of x] by auto
    qed
  next
    show "studentKeys rows \<subseteq> decodeKey ` set ?ks"
    proof
      fix t assume t: "t \<in> studentKeys rows"
      then have "(\<lambda>(g, c, n). studentKey g c n) t \<in> set ?ks" using k by auto
      moreover have "decodeKey ((\<lambda>(g, c, n). studentKey g c n) t) = t"
        using nn t by (simp add: case_prod_beta decodeKey_studentKey)
      ultimately show "t \<in> decodeKey ` set ?ks" by (metis imageI)
    qed
  qed
  have fin: "finite (studentKeys rows)" using img [symmetric] by simp
  have sl: "map decodeKey ?S = sorted_list_of_set (studentKeys rows)"
  proof (rule sorted_distinct_set_unique)
    show "sorted (map decodeKey ?S)" by (rule sorted_sort_key)
    show "distinct (map decodeKey ?S)" using d inj by (simp add: distinct_map)
    show "sorted (sorted_list_of_set (studentKeys rows))" by simp
    show "distinct (sorted_list_of_set (studentKeys rows))" by simp
    show "set (map decodeKey ?S) = set (sorted_list_of_set (studentKeys rows))"
      using img fin by simp
  qed
  have "map (\<lambda>x. ?some (decodeKey x)) ?S = map ?some (map decodeKey ?S)"
    by (simp add: comp_def)
  also have "\<dots> = map ?some (sorted_list_of_set (studentKeys rows))"
    by (simp only: sl)
  finally show ?thesis using rows_eq by (simp only:)
qed

section \<open>Idempotence of the text normalization\<close>

text \<open>Each rewriting step only removes white space.\<close>

lemma wsdel_refl: "wsdel s s"
  by (induction s) (auto intro: wsdel.intros)

lemma wsdel_set: "wsdel s t \<Longrightarrow> set t \<subseteq> set s"
  by (induction rule: wsdel.induct) auto

lemma wsdel_prefix: "\<forall>x \<in> set ws. isSpace x \<Longrightarrow> wsdel s t \<Longrightarrow> wsdel (ws @ s) t"
  by (induction ws) (auto intro: wsdel.intros)

lemma wsdel_append: "wsdel a a' \<Longrightarrow> wsdel b b' \<Longrightarrow> wsdel (a @ b) (a' @ b')"
  by (induction rule: wsdel.induct) (auto intro: wsdel.intros)

lemma wsdel_removeSpaces: "wsdel s (removeSpaces s)"
  by (induction s) (auto simp: removeSpaces_def intro: wsdel.intros)

lemma wsdel_stripAround: "wsdel s (stripAround e s)"
proof (induction e s rule: stripAround.induct)
  case (1 d)
  show ?case by (simp add: wsdel_Nil)
next
  case (2 d c cs)
  show ?case
  proof (cases "dropWhile isSpace (c # cs)")
    case Nil
    then show ?thesis using 2(1) by (simp add: wsdel_keep)
  next
    case (Cons x xs)
    show ?thesis
    proof (cases "x = d")
      case True
      have split: "c # cs = takeWhile isSpace (c # cs) @ d # takeWhile isSpace xs @ dropWhile isSpace xs"
        using takeWhile_dropWhile_id [of isSpace "c # cs"] Cons True by simp
      have ih: "wsdel (dropWhile isSpace xs) (stripAround d (dropWhile isSpace xs))"
        using 2(2) [OF Cons True] .
      have "wsdel (takeWhile isSpace xs @ dropWhile isSpace xs) (stripAround d (dropWhile isSpace xs))"
        by (rule wsdel_prefix) (auto dest: set_takeWhileD simp: ih)
      then have "wsdel (d # takeWhile isSpace xs @ dropWhile isSpace xs)
                   (d # stripAround d (dropWhile isSpace xs))"
        by (rule wsdel_keep)
      then have "wsdel (takeWhile isSpace (c # cs) @ d # takeWhile isSpace xs @ dropWhile isSpace xs)
                   (d # stripAround d (dropWhile isSpace xs))"
        by (intro wsdel_prefix) (auto dest: set_takeWhileD)
      then have "wsdel (c # cs) (d # stripAround d (dropWhile isSpace xs))"
        using split by simp
      moreover have "stripAround d (c # cs) = d # stripAround d (dropWhile isSpace xs)"
        using Cons True by simp
      ultimately show ?thesis by simp
    next
      case False
      have "stripAround d (c # cs) = c # stripAround d cs" using Cons False by simp
      then show ?thesis using 2(3) [OF Cons False] by (simp add: wsdel_keep)
    qed
  qed
qed

lemma wsdel_parenStrip: "wsdel s (parenStrip s)"
proof (induction s rule: parenStrip.induct)
  case 1
  show ?case by (simp add: wsdel_Nil)
next
  case (2 c cs)
  show ?case
  proof (cases "c = LPAREN")
    case False
    then show ?thesis using 2(3) by (simp add: wsdel_keep)
  next
    case True
    show ?thesis
    proof (cases "dropWhile (\<lambda>x. x \<noteq> RPAREN) cs")
      case Nil
      have "parenStrip (c # cs) = c # parenStrip cs"
        using True Nil by (simp del: dropWhile_eq_Nil_conv)
      then show ?thesis using 2(1) [OF True Nil] by (simp add: wsdel_keep)
    next
      case (Cons r rest)
      have r: "r = RPAREN" using hd_dropWhile [of "\<lambda>x. x \<noteq> RPAREN" cs] Cons by simp
      have split: "cs = takeWhile (\<lambda>x. x \<noteq> RPAREN) cs @ RPAREN # rest"
        using takeWhile_dropWhile_id [of "\<lambda>x. x \<noteq> RPAREN" cs] Cons r by simp
      have "wsdel (RPAREN # rest) (RPAREN # parenStrip rest)"
        using 2(2) [OF True Cons] by (rule wsdel_keep)
      then have "wsdel (takeWhile (\<lambda>x. x \<noteq> RPAREN) cs @ RPAREN # rest)
                   (removeSpaces (takeWhile (\<lambda>x. x \<noteq> RPAREN) cs) @ RPAREN # parenStrip rest)"
        by (intro wsdel_append wsdel_removeSpaces)
      then have "wsdel cs (removeSpaces (takeWhile (\<lambda>x. x \<noteq> RPAREN) cs) @ RPAREN # parenStrip rest)"
        using split by simp
      then have "wsdel (c # cs) (c # removeSpaces (takeWhile (\<lambda>x. x \<noteq> RPAREN) cs) @ RPAREN # parenStrip rest)"
        by (rule wsdel_keep)
      then show ?thesis using True Cons by simp
    qed
  qed
qed

text \<open>Removing white space keeps a separator free of white space beside it.\<close>

lemma clean_skip:
  assumes "isSpace c" "\<not> isSpace d" "clean d p (c # s)"
  shows "clean d p s"
proof (cases s)
  case Nil
  then show ?thesis by simp
next
  case (Cons x xs)
  then show ?thesis using assms by (cases p) (auto simp: pairOk_def)
qed

lemma clean_wsdel: "wsdel s t \<Longrightarrow> \<not> isSpace d \<Longrightarrow> clean d p s \<Longrightarrow> clean d p t"
proof (induction arbitrary: p rule: wsdel.induct)
  case wsdel_Nil
  show ?case by simp
next
  case (wsdel_keep s t c)
  then show ?case by simp
next
  case (wsdel_drop c s t)
  from wsdel_drop.prems wsdel_drop.hyps(1) have "clean d p s" by (blast intro: clean_skip)
  then show ?case using wsdel_drop.IH wsdel_drop.prems(1) by blast
qed


text \<open>
  \<open>stripAround d\<close> leaves a string unchanged when \<open>d\<close> has no white space beside it,
  and its result is such a string.
\<close>

lemma clean_ws_run:
  "isSpace c \<Longrightarrow> clean d (Some c) cs \<Longrightarrow> dropWhile isSpace cs = x # xs \<Longrightarrow> x \<noteq> d"
proof (induction cs arbitrary: c)
  case Nil
  then show ?case by simp
next
  case (Cons y ys)
  show ?case
  proof (cases "isSpace y")
    case True
    with Cons.prems have "clean d (Some y) ys" "dropWhile isSpace ys = x # xs" by simp_all
    with True show ?thesis using Cons.IH by blast
  next
    case False
    with Cons.prems have "x = y" "pairOk d (Some c) y" by simp_all
    with Cons.prems(1) show ?thesis by (auto simp: pairOk_def)
  qed
qed

lemma stripAround_fixed: "\<not> isSpace d \<Longrightarrow> clean d p s \<Longrightarrow> stripAround d s = s"
proof (induction d s arbitrary: p rule: stripAround.induct)
  case (1 d)
  show ?case by simp
next
  case (2 d c cs)
  from "2.prems" have tl: "clean d (Some c) cs" by simp
  show ?case
  proof (cases "dropWhile isSpace (c # cs)")
    case Nil
    have "stripAround d (c # cs) = c # stripAround d cs"
      using Nil by (simp del: dropWhile_eq_Nil_conv)
    then show ?thesis using "2.IH"(1) [OF Nil "2.prems"(1) tl] by simp
  next
    case (Cons x xs)
    show ?thesis
    proof (cases "x = d")
      case False
      have "stripAround d (c # cs) = c # stripAround d cs" using Cons False by simp
      then show ?thesis using "2.IH"(3) [OF Cons False "2.prems"(1) tl] by simp
    next
      case True
      have nws: "\<not> isSpace c"
      proof
        assume w: "isSpace c"
        then have "dropWhile isSpace cs = x # xs" using Cons by simp
        with w tl have "x \<noteq> d" by (rule clean_ws_run)
        with True show False by simp
      qed
      then have cx: "c = d" "xs = cs" using Cons True by simp_all
      have "dropWhile isSpace cs = cs"
      proof (cases cs)
        case Nil
        then show ?thesis by simp
      next
        case (Cons y ys)
        with tl cx have "\<not> isSpace y" by (simp add: pairOk_def)
        with Cons show ?thesis by simp
      qed
      moreover have "stripAround d (c # cs) = d # stripAround d (dropWhile isSpace cs)"
        using Cons True cx by simp
      moreover have "stripAround d (dropWhile isSpace xs) = dropWhile isSpace xs"
        using "2.IH"(2) [OF Cons True "2.prems"(1)] tl cx calculation(1) by simp
      ultimately show ?thesis using cx by simp
    qed
  qed
qed

lemma dropWhile_head: "(case dropWhile P xs of [] \<Rightarrow> True | x # ys \<Rightarrow> \<not> P x)"
  by (induction xs) simp_all

lemma stripAround_clean: "\<not> isSpace d \<Longrightarrow> startOk d p s \<Longrightarrow> clean d p (stripAround d s)"
proof (induction d s arbitrary: p rule: stripAround.induct)
  case (1 d)
  show ?case by simp
next
  case (2 d c cs)
  show ?case
  proof (cases "dropWhile isSpace (c # cs)")
    case Nil
    then have w: "isSpace c" by (simp split: if_splits)
    with "2.prems"(1) have cd: "c \<noteq> d" by auto
    have eq: "stripAround d (c # cs) = c # stripAround d cs"
      using Nil by (simp del: dropWhile_eq_Nil_conv)
    have "dropWhile isSpace cs = []" using Nil w by simp
    then have "startOk d (Some c) cs" using cd by (simp add: startOk_def del: dropWhile_eq_Nil_conv)
    then have "clean d (Some c) (stripAround d cs)" using "2.IH"(1) [OF Nil "2.prems"(1)] by simp
    moreover have "pairOk d p c"
      using "2.prems"(2) w cd by (cases p) (auto simp: pairOk_def startOk_def)
    ultimately show ?thesis using eq by simp
  next
    case (Cons x xs)
    show ?thesis
    proof (cases "x = d")
      case True
      have eq: "stripAround d (c # cs) = d # stripAround d (dropWhile isSpace xs)"
        using Cons True by simp
      have "startOk d (Some d) (dropWhile isSpace xs)"
        using "2.prems"(1) dropWhile_head [of isSpace xs] by (simp add: startOk_def)
      then have "clean d (Some d) (stripAround d (dropWhile isSpace xs))"
        using "2.IH"(2) [OF Cons True "2.prems"(1)] by simp
      moreover have "pairOk d p d"
      proof (cases p)
        case None
        then show ?thesis by (simp add: pairOk_def)
      next
        case (Some a)
        have "\<not> isSpace a"
        proof
          assume "isSpace a"
          with "2.prems"(2) Some Cons have "x \<noteq> d" by (simp add: startOk_def)
          with True show False by simp
        qed
        with Some "2.prems"(1) show ?thesis by (simp add: pairOk_def)
      qed
      ultimately show ?thesis using eq by simp
    next
      case False
      have eq: "stripAround d (c # cs) = c # stripAround d cs" using Cons False by simp
      have cd: "c \<noteq> d"
      proof (cases "isSpace c")
        case True
        with "2.prems"(1) show ?thesis by auto
      next
        case nw: False
        with Cons have "x = c" by simp
        with False show ?thesis by simp
      qed
      have "startOk d (Some c) cs"
      proof (cases "isSpace c")
        case True
        with Cons have "dropWhile isSpace cs = x # xs" by simp
        with False cd show ?thesis by (simp add: startOk_def)
      next
        case nw: False
        with cd show ?thesis by (simp add: startOk_def)
      qed
      then have "clean d (Some c) (stripAround d cs)" using "2.IH"(3) [OF Cons False "2.prems"(1)] by simp
      moreover have "pairOk d p c"
        using "2.prems"(2) cd by (cases p) (auto simp: pairOk_def startOk_def)
      ultimately show ?thesis using eq by simp
    qed
  qed
qed

lemma stripAround_idem: "\<not> isSpace d \<Longrightarrow> stripAround d (stripAround d s) = stripAround d s"
  by (rule stripAround_fixed [where p = None]) (simp_all add: stripAround_clean startOk_def)

text \<open>The parenthesis step and the whole rewriting are idempotent.\<close>

lemma parenStrip_no_close: "RPAREN \<notin> set s \<Longrightarrow> RPAREN \<notin> set (parenStrip s)"
  using wsdel_set [OF wsdel_parenStrip, of s] by blast

lemma parenStrip_idem: "parenStrip (parenStrip s) = parenStrip s"
proof (induction s rule: parenStrip.induct)
  case 1
  show ?case by simp
next
  case (2 c cs)
  show ?case
  proof (cases "c = LPAREN")
    case False
    then show ?thesis using 2(3) by simp
  next
    case True
    show ?thesis
    proof (cases "dropWhile (\<lambda>x. x \<noteq> RPAREN) cs")
      case Nil
      have eq: "parenStrip (c # cs) = c # parenStrip cs"
        using True Nil by (simp del: dropWhile_eq_Nil_conv)
      have "RPAREN \<notin> set cs" using Nil by (auto simp: dropWhile_eq_Nil_conv)
      then have "RPAREN \<notin> set (parenStrip cs)" by (rule parenStrip_no_close)
      then have "dropWhile (\<lambda>x. x \<noteq> RPAREN) (parenStrip cs) = []"
        by (auto simp: dropWhile_eq_Nil_conv)
      then have "parenStrip (c # parenStrip cs) = c # parenStrip (parenStrip cs)"
        using True by (simp del: dropWhile_eq_Nil_conv)
      then show ?thesis using eq 2(1) [OF True Nil] by simp
    next
      case (Cons r rest)
      let ?inner = "removeSpaces (takeWhile (\<lambda>x. x \<noteq> RPAREN) cs)"
      have eq: "parenStrip (c # cs) = LPAREN # ?inner @ RPAREN # parenStrip rest"
        using True Cons by simp
      have inner: "\<forall>x \<in> set ?inner. x \<noteq> RPAREN"
        by (auto simp: removeSpaces_def dest: set_takeWhileD)
      then have d: "dropWhile (\<lambda>x. x \<noteq> RPAREN) (?inner @ RPAREN # parenStrip rest) = RPAREN # parenStrip rest"
        by (simp add: dropWhile_append2)
      from inner have t: "takeWhile (\<lambda>x. x \<noteq> RPAREN) (?inner @ RPAREN # parenStrip rest) = ?inner"
        by (simp add: takeWhile_append2)
      have rr: "removeSpaces ?inner = ?inner" by (simp add: removeSpaces_def)
      have "parenStrip (LPAREN # ?inner @ RPAREN # parenStrip rest)
            = LPAREN # removeSpaces ?inner @ RPAREN # parenStrip (parenStrip rest)"
        apply (simp only: parenStrip.simps(2) [of LPAREN "?inner @ RPAREN # parenStrip rest"] d t list.case)
        apply (simp only: if_True simp_thms)
        done
      then have "parenStrip (LPAREN # ?inner @ RPAREN # parenStrip rest)
            = LPAREN # ?inner @ RPAREN # parenStrip (parenStrip rest)"
        by (simp only: rr)
      then show ?thesis using eq 2(2) [OF True Cons] by simp
    qed
  qed
qed

lemma unify_fixed:
  assumes "\<forall>c \<in> set s. c \<noteq> 0xFF0F \<and> (c \<in> set dotChars \<longrightarrow> c = KDOT)"
  shows "unifySlash (unifyDots s) = s"
proof -
  have "map (\<lambda>c. if c \<in> set dotChars then KDOT else c) s = s"
    using assms by (induction s) auto
  moreover have "map (\<lambda>c. if c = 0xFF0F then SLASH else c) s = s"
    using assms by (induction s) auto
  ultimately show ?thesis by (simp add: unifySlash_def unifyDots_def)
qed

lemma unify_chars:
  "\<forall>c \<in> set (unifySlash (unifyDots s)). c \<noteq> 0xFF0F \<and> (c \<in> set dotChars \<longrightarrow> c = KDOT)"
proof
  fix c
  assume "c \<in> set (unifySlash (unifyDots s))"
  then obtain a where c: "c = (if (if a \<in> set dotChars then KDOT else a) = 0xFF0F then SLASH
                              else (if a \<in> set dotChars then KDOT else a))"
    unfolding unifySlash_def unifyDots_def by (simp only: set_map image_iff) blast
  have k: "KDOT \<noteq> 0xFF0F" "KDOT \<in> set dotChars" "SLASH \<noteq> 0xFF0F" "SLASH \<notin> set dotChars"
    by (simp_all add: dotChars_def KDOT_def SLASH_def)
  show "c \<noteq> 0xFF0F \<and> (c \<in> set dotChars \<longrightarrow> c = KDOT)"
  proof (cases "a \<in> set dotChars")
    case True
    then have "c = KDOT" using c k(1) by simp
    then show ?thesis using k(1) by simp
  next
    case False
    show ?thesis
    proof (cases "a = 0xFF0F")
      case True
      then have "c = SLASH" using c False by simp
      then show ?thesis using k(3,4) by simp
    next
      case nf: False
      then have "c = a" using c False by simp
      then show ?thesis using False nf by simp
    qed
  qed
qed

lemma rewriteGroup_idem: "rewriteGroup (rewriteGroup s) = rewriteGroup s"
proof -
  let ?u = "unifySlash (unifyDots s)"
  let ?a = "stripAround KDOT ?u"
  let ?b = "stripAround SLASH ?a"
  let ?o = "parenStrip ?b"
  have kd: "\<not> isSpace KDOT" and sl: "\<not> isSpace SLASH" by (simp_all add: isSpace_def KDOT_def SLASH_def)
  have o: "rewriteGroup s = ?o" by (simp add: rewriteGroup_def)
  have "set ?o \<subseteq> set ?u"
    using wsdel_set [OF wsdel_parenStrip, of ?b] wsdel_set [OF wsdel_stripAround, of SLASH ?a]
      wsdel_set [OF wsdel_stripAround, of KDOT ?u] by blast
  then have "\<forall>c \<in> set ?o. c \<noteq> 0xFF0F \<and> (c \<in> set dotChars \<longrightarrow> c = KDOT)"
    using unify_chars [of s] by blast
  then have 1: "unifySlash (unifyDots ?o) = ?o" by (rule unify_fixed)
  have "clean KDOT None ?a" using kd by (simp add: stripAround_clean startOk_def)
  then have "clean KDOT None ?b" by (rule clean_wsdel [OF wsdel_stripAround kd])
  then have "clean KDOT None ?o" by (rule clean_wsdel [OF wsdel_parenStrip kd])
  then have 2: "stripAround KDOT ?o = ?o" by (rule stripAround_fixed [OF kd])
  have "clean SLASH None ?b" using sl by (simp add: stripAround_clean startOk_def)
  then have "clean SLASH None ?o" by (rule clean_wsdel [OF wsdel_parenStrip sl])
  then have 3: "stripAround SLASH ?o = ?o" by (rule stripAround_fixed [OF sl])
  have 4: "parenStrip ?o = ?o" by (rule parenStrip_idem)
  have "rewriteGroup ?o = ?o" unfolding rewriteGroup_def 1 2 3 4 ..
  then show ?thesis using o by simp
qed


text \<open>
  Claim C7, as stated, says that applying the normalization twice gives the result of
  applying it once. NFKC turns the acute accent U+00B4 into a space and the combining
  accent U+0301, after the trim: the normalized course name begins with a space, which
  the second application removes. A name of one space is normalized to the empty
  string, and the empty string to \<^verbatim>\<open>null\<close>. \<^verbatim>\<open>canonGroup\<close> returns the label U+00B4
  with the leading space as well, and removes the space from that result.
\<close>

theorem normalization_not_idempotent:
  "normCourseName nfkcTable (normCourseName nfkcTable (Some [0xB4])) \<noteq> normCourseName nfkcTable (Some [0xB4])
   \<and> normCourseName nfkcTable (Some [0xB4]) = Some [0x20, 0x301]
   \<and> normCourseName nfkcTable (Some [0x20, 0x301]) = Some [0x301]
   \<and> normCourseName nfkcTable (normCourseName nfkcTable (Some (asc '' ''))) \<noteq> normCourseName nfkcTable (Some (asc '' ''))
   \<and> normCourseName nfkcTable (Some (asc '' '')) = Some []
   \<and> normCourseName nfkcTable (Some []) = None
   \<and> canonGroup nfkcTable (Some [0xB4]) = [0x20, 0x301]
   \<and> canonGroup nfkcTable (Some [0x20, 0x301]) = [0x301]"
  by (simp add: normCourseName_def group_defs string_defs label_defs)

text \<open>
  Claim C7, amended: the normalization is a total function of its argument (of the
  argument and of the runtime's NFKC). The rewriting of \<^verbatim>\<open>canonGroup\<close> after NFKC, and the
  parenthesis step of \<^verbatim>\<open>normCourseName\<close>, are idempotent on every string. The chain of
  \<^verbatim>\<open>canonGroup\<close> is idempotent on every label whose normalized form NFKC leaves as it
  is, and \<^verbatim>\<open>normCourseName\<close> on every name whose normalized form is not empty and is left
  as it is by the trim and by NFKC.
\<close>

theorem normalization_idempotent:
  "rewriteGroup (rewriteGroup s) = rewriteGroup s
   \<and> parenStrip (parenStrip s) = parenStrip s
   \<and> (nfkc (normalizeGroup nfkc s) = normalizeGroup nfkc s
        \<longrightarrow> normalizeGroup nfkc (normalizeGroup nfkc s) = normalizeGroup nfkc s)
   \<and> (\<forall>y. normCourseName nfkc name = Some y \<and> y \<noteq> [] \<and> trim y = y \<and> nfkc y = y
        \<longrightarrow> normCourseName nfkc (Some y) = Some y)"
proof (intro conjI impI allI)
  show "rewriteGroup (rewriteGroup s) = rewriteGroup s" by (rule rewriteGroup_idem)
next
  show "parenStrip (parenStrip s) = parenStrip s" by (rule parenStrip_idem)
next
  assume "nfkc (normalizeGroup nfkc s) = normalizeGroup nfkc s"
  then have "normalizeGroup nfkc (normalizeGroup nfkc s) = rewriteGroup (normalizeGroup nfkc s)"
    by (simp add: normalizeGroup_def)
  then show "normalizeGroup nfkc (normalizeGroup nfkc s) = normalizeGroup nfkc s"
    by (simp add: normalizeGroup_def rewriteGroup_idem)
next
  fix y
  assume h: "normCourseName nfkc name = Some y \<and> y \<noteq> [] \<and> trim y = y \<and> nfkc y = y"
  then obtain n where y: "y = parenStrip (nfkc (trim n))"
    by (auto simp: normCourseName_def split: option.splits if_splits)
  from h have "normCourseName nfkc (Some y) = Some (parenStrip y)"
    by (simp add: normCourseName_def)
  also have "parenStrip y = y" unfolding y by (rule parenStrip_idem)
  finally show "normCourseName nfkc (Some y) = Some y" .
qed

text \<open>
  The label "U+AE30 U+C220 U+00B7 U+AC00 U+C815 U+FF0F (U+C815 U+BCF4)", with spaces
  around the dot and inside the parentheses, and the course name
  " U+C218 U+D559 ( U+C2EC U+D654 )U+2161 ": the normalized forms are stable.
\<close>

theorem normalization_idempotent_witness:
  "normalizeGroup nfkcTable
     [0xAE30, 0xC220, 0x20, 0xB7, 0x20, 0xAC00, 0xC815, 0xFF0F, 0x28, 0xC815, 0x20, 0xBCF4, 0x29]
     = [0xAE30, 0xC220, 0x30FB, 0xAC00, 0xC815, 0x2F, 0x28, 0xC815, 0xBCF4, 0x29]
   \<and> nfkcTable [0xAE30, 0xC220, 0x30FB, 0xAC00, 0xC815, 0x2F, 0x28, 0xC815, 0xBCF4, 0x29]
     = [0xAE30, 0xC220, 0x30FB, 0xAC00, 0xC815, 0x2F, 0x28, 0xC815, 0xBCF4, 0x29]
   \<and> normalizeGroup nfkcTable [0xAE30, 0xC220, 0x30FB, 0xAC00, 0xC815, 0x2F, 0x28, 0xC815, 0xBCF4, 0x29]
     = [0xAE30, 0xC220, 0x30FB, 0xAC00, 0xC815, 0x2F, 0x28, 0xC815, 0xBCF4, 0x29]
   \<and> normCourseName nfkcTable (Some ([0x20, 0xC218, 0xD559, 0x20, 0x28, 0x20, 0xC2EC, 0xD654, 0x20, 0x29, 0x2161, 0x20]))
     = Some [0xC218, 0xD559, 0x20, 0x28, 0xC2EC, 0xD654, 0x29, 73, 73]
   \<and> normCourseName nfkcTable (Some [0xC218, 0xD559, 0x20, 0x28, 0xC2EC, 0xD654, 0x29, 73, 73])
     = Some [0xC218, 0xD559, 0x20, 0x28, 0xC2EC, 0xD654, 0x29, 73, 73]"
proof -
  let ?s = "[0xAE30, 0xC220, 0x20, 0xB7, 0x20, 0xAC00, 0xC815, 0xFF0F, 0x28, 0xC815, 0x20, 0xBCF4, 0x29] :: ustring"
  let ?o = "[0xAE30, 0xC220, 0x30FB, 0xAC00, 0xC815, 0x2F, 0x28, 0xC815, 0xBCF4, 0x29] :: ustring"
  let ?n = "[0x20, 0xC218, 0xD559, 0x20, 0x28, 0x20, 0xC2EC, 0xD654, 0x20, 0x29, 0x2161, 0x20] :: ustring"
  let ?y = "[0xC218, 0xD559, 0x20, 0x28, 0xC2EC, 0xD654, 0x29, 73, 73] :: ustring"
  note w = normalization_idempotent [of ?s nfkcTable "Some ?n"]
  have o: "normalizeGroup nfkcTable ?s = ?o"
    by (simp add: normalizeGroup_def rewriteGroup_def string_defs)
  have f: "nfkcTable ?o = ?o" by (simp add: string_defs)
  have "nfkcTable (normalizeGroup nfkcTable ?s) = normalizeGroup nfkcTable ?s \<longrightarrow>
        normalizeGroup nfkcTable (normalizeGroup nfkcTable ?s) = normalizeGroup nfkcTable ?s"
    using w by blast
  then have i: "normalizeGroup nfkcTable ?o = ?o" unfolding o using f by blast
  have y: "normCourseName nfkcTable (Some ?n) = Some ?y"
    by (simp add: normCourseName_def string_defs)
  have c: "?y \<noteq> [] \<and> trim ?y = ?y \<and> nfkcTable ?y = ?y" by (simp add: string_defs)
  from w y c have j: "normCourseName nfkcTable (Some ?y) = Some ?y" by blast
  from o f i y j show ?thesis by blast
qed

end
